theory Spec2Isabelle
  imports Complex_Main "HOL-Library.AList"
begin

section \<open>Adjacency graph of grouped polygons (Graph.py)\<close>

text \<open>
  The script groups the polygon features of a vector layer by the string form of one
  attribute, gives every group a bounding rectangle and a spatial index, and records an
  edge between two groups when member geometries intersect. Python exceptions are values
  of \<open>error\<close>; a function that can raise returns \<open>error + 'a\<close>. Coordinates are
  reals (rounding of floating point numbers is not part of the model).
\<close>

subsection \<open>Errors and sequencing\<close>

datatype error =
    ParserError      \<comment> \<open>\<open>raise Exception(exp.parserErrorString())\<close>\<close>
  | EvalError        \<comment> \<open>\<open>raise ValueError(exp.evalErrorString())\<close>\<close>
  | EmptySequence    \<comment> \<open>ValueError of \<open>min([])\<close> and \<open>max([])\<close>\<close>
  | FloatError       \<comment> \<open>ValueError of \<open>float\<close> on a text that is no number\<close>
  | IndexError
  | KeyError
  | TypeError
  | UnicodeEncodeError

definition ebind :: "error + 'a \<Rightarrow> ('a \<Rightarrow> error + 'b) \<Rightarrow> error + 'b" where
  "ebind m f = (case m of Inl e \<Rightarrow> Inl e | Inr a \<Rightarrow> f a)"

text \<open>A \<open>for\<close> loop over a list whose body may raise: the first exception ends it.\<close>

fun efold :: "('a \<Rightarrow> 's \<Rightarrow> error + 's) \<Rightarrow> 'a list \<Rightarrow> 's \<Rightarrow> error + 's" where
  "efold f [] s = Inr s"
| "efold f (a # as) s = (case f a s of Inl e \<Rightarrow> Inl e | Inr s' \<Rightarrow> efold f as s')"

definition index_py :: "'a list \<Rightarrow> nat \<Rightarrow> error + 'a" where
  "index_py xs i = (if i < length xs then Inr (xs ! i) else Inl IndexError)"

definition pymin :: "real list \<Rightarrow> error + real" where
  "pymin xs = (case xs of [] \<Rightarrow> Inl EmptySequence | a # as \<Rightarrow> Inr (fold min as a))"

definition pymax :: "real list \<Rightarrow> error + real" where
  "pymax xs = (case xs of [] \<Rightarrow> Inl EmptySequence | a # as \<Rightarrow> Inr (fold max as a))"

subsection \<open>Geometries and rectangles\<close>

type_synonym point = "real \<times> real"

text \<open>
  A geometry is what the script reads of it: a polygon is its list of rings (the value of
  \<open>asPolygon()\<close>, outer ring first), any other geometry has \<open>asPolygon() = []\<close>.
\<close>

datatype geometry = Polygon "point list list" | NonPolygon "point list"

fun asPolygon :: "geometry \<Rightarrow> point list list" where
  "asPolygon (Polygon rings) = rings"
| "asPolygon (NonPolygon ps) = []"

fun vertices :: "geometry \<Rightarrow> point list" where
  "vertices (Polygon rings) = concat rings"
| "vertices (NonPolygon ps) = ps"

text \<open>The list \<open>[xMin, yMin, xMax, yMax]\<close>.\<close>

type_synonym bounds = "real \<times> real \<times> real \<times> real"

definition bxMin :: "bounds \<Rightarrow> real" where "bxMin b = fst b"
definition byMin :: "bounds \<Rightarrow> real" where "byMin b = fst (snd b)"
definition bxMax :: "bounds \<Rightarrow> real" where "bxMax b = fst (snd (snd b))"
definition byMax :: "bounds \<Rightarrow> real" where "byMax b = snd (snd (snd b))"

definition rectBounds :: "geometry \<Rightarrow> error + bounds" where
  "rectBounds geometry =
     (let coordList = asPolygon geometry in
      ebind (efold (\<lambda>i (x, y).
                ebind (index_py coordList 0) (\<lambda>ring.
                ebind (index_py ring i) (\<lambda>p. Inr (x @ [fst p], y @ [snd p]))))
              [0..<length coordList] ([], []))
        (\<lambda>(x, y).
           ebind (pymin x) (\<lambda>x0. ebind (pymin y) (\<lambda>y0.
           ebind (pymax x) (\<lambda>x1. ebind (pymax y) (\<lambda>y1. Inr (x0, y0, x1, y1)))))))"

text \<open>
  The rectangle class of the geometry engine is not part of the script. Its constructor
  orders the two corners, and \<open>intersects\<close> is the test of closed rectangles: rectangles
  that share only a border or a corner intersect.
\<close>

definition QgsRectangle :: "real \<Rightarrow> real \<Rightarrow> real \<Rightarrow> real \<Rightarrow> bounds" where
  "QgsRectangle x0 y0 x1 y1 = (min x0 x1, min y0 y1, max x0 x1, max y0 y1)"

definition rect_intersects :: "bounds \<Rightarrow> bounds \<Rightarrow> bool" where
  "rect_intersects r1 r2 =
     (max (bxMin r1) (bxMin r2) \<le> min (bxMax r1) (bxMax r2) \<and>
      max (byMin r1) (byMin r2) \<le> min (byMax r1) (byMax r2))"

definition smallRectangle :: "bounds \<Rightarrow> bounds \<Rightarrow> bounds" where
  "smallRectangle bounds1 bounds2 =
     (let xMin = max (bxMin bounds1) (bxMin bounds2);
          yMin = max (byMin bounds1) (byMin bounds2);
          xMax = min (bxMax bounds1) (bxMax bounds2);
          yMax = min (byMax bounds1) (byMax bounds2)
      in QgsRectangle xMin yMin xMax yMax)"

subsection \<open>Python's \<open>float\<close> and \<open>str\<close>\<close>

text \<open>
  The values of the attribute table as the script meets them: integers, text and NULL.
  (Fields of floating point type are left out: their text form is a matter of floating
  point formatting.) The script is Python 2: an attribute text is a \<open>unicode\<close> object
  (here with code points below 256), a group key is a byte string, and \<open>str\<close> of a text
  with a character outside ASCII raises.
\<close>

datatype attr = AInt int | AStr string | ANull

datatype pynum = Finite real | PosInf | NegInf | NaN

datatype pyvalue = Number pynum | Text string

definition is_space :: "char \<Rightarrow> bool" where
  "is_space c = (c \<in> set [CHR 0x20, CHR 0x09, CHR 0x0A, CHR 0x0B, CHR 0x0C, CHR 0x0D])"

definition is_digit :: "char \<Rightarrow> bool" where
  "is_digit c = (c \<in> set ''0123456789'')"

text \<open>The white space of a \<open>unicode\<close> object has six more characters below 256.\<close>

definition is_uspace :: "char \<Rightarrow> bool" where
  "is_uspace c =
     (is_space c \<or> c \<in> set [CHR 0x1C, CHR 0x1D, CHR 0x1E, CHR 0x1F, CHR 0x85, CHR 0xA0])"

definition strip :: "(char \<Rightarrow> bool) \<Rightarrow> string \<Rightarrow> string" where
  "strip sp s = rev (dropWhile sp (rev (dropWhile sp s)))"

definition digit_val :: "char \<Rightarrow> nat" where
  "digit_val c = of_char c - 48"

definition digits_val :: "string \<Rightarrow> nat" where
  "digits_val ds = fold (\<lambda>c n. 10 * n + digit_val c) ds 0"

definition lower :: "char \<Rightarrow> char" where
  "lower c = (let n = (of_char c :: nat) in if 65 \<le> n \<and> n \<le> 90 then char_of (n + 32) else c)"

definition split_sign :: "string \<Rightarrow> int \<times> string" where
  "split_sign s =
     (case s of
        [] \<Rightarrow> (1, s)
      | c # r \<Rightarrow> if c = CHR ''+'' then (1, r) else if c = CHR ''-'' then (- 1, r) else (1, s))"

definition exponent :: "string \<Rightarrow> int option" where
  "exponent r =
     (case r of
        [] \<Rightarrow> Some 0
      | c # r' \<Rightarrow>
          if c = CHR ''e'' \<or> c = CHR ''E''
          then (let (sg, ds) = split_sign r'
                in if ds \<noteq> [] \<and> list_all is_digit ds then Some (sg * int (digits_val ds))
                   else None)
          else None)"

definition scale :: "real \<Rightarrow> int \<Rightarrow> real" where
  "scale m e = (if 0 \<le> e then m * 10 ^ nat e else m / 10 ^ nat (- e))"

definition float_body :: "string \<Rightarrow> real option" where
  "float_body b =
     (let ip = takeWhile is_digit b;
          r1 = dropWhile is_digit b;
          (fp, r2) = (case r1 of
                        [] \<Rightarrow> ([], r1)
                      | c # r \<Rightarrow> if c = CHR ''.''
                                then (takeWhile is_digit r, dropWhile is_digit r)
                                else ([], r1))
      in if ip = [] \<and> fp = [] then None
         else (case exponent r2 of
                 None \<Rightarrow> None
               | Some e \<Rightarrow>
                   Some (scale (real (digits_val ip) + real (digits_val fp) / 10 ^ length fp) e)))"

text \<open>
  \<open>float(s)\<close> of a text: surrounding white space (the characters of \<open>sp\<close>) is dropped,
  then an optional sign and either \<open>inf\<close>, \<open>infinity\<close>, \<open>nan\<close> in any case or a decimal
  literal with an optional fraction and exponent. \<open>None\<close> is the ValueError.
\<close>

definition float_of :: "(char \<Rightarrow> bool) \<Rightarrow> string \<Rightarrow> pynum option" where
  "float_of sp s =
     (let (sg, b) = split_sign (strip sp s); l = map lower b
      in if l = ''inf'' \<or> l = ''infinity'' then Some (if sg = 1 then PosInf else NegInf)
         else if l = ''nan'' then Some NaN
         else map_option (\<lambda>r. Finite (real_of_int sg * r)) (float_body b))"

text \<open>\<open>float\<close> of a byte string and of a \<open>unicode\<close> object.\<close>

definition float_str :: "string \<Rightarrow> pynum option" where
  "float_str s = float_of is_space s"

definition float_unicode :: "string \<Rightarrow> pynum option" where
  "float_unicode s = float_of is_uspace s"

fun float_attr :: "attr \<Rightarrow> error + pynum" where
  "float_attr (AInt i) = Inr (Finite (real_of_int i))"
| "float_attr (AStr s) = (case float_unicode s of None \<Rightarrow> Inl FloatError | Some n \<Rightarrow> Inr n)"
| "float_attr ANull = Inl TypeError"

definition str_py :: "string \<Rightarrow> error + string" where
  "str_py s = (if list_all (\<lambda>c. (of_char c :: nat) < 128) s then Inr s else Inl UnicodeEncodeError)"

fun nat_digits :: "nat \<Rightarrow> string" where
  "nat_digits n =
     (if n < 10 then [''0123456789'' ! n]
      else nat_digits (n div 10) @ [''0123456789'' ! (n mod 10)])"

fun str_attr :: "attr \<Rightarrow> error + string" where
  "str_attr (AInt i) =
     Inr (if i < 0 then CHR ''-'' # nat_digits (nat (- i)) else nat_digits (nat i))"
| "str_attr (AStr s) = str_py s"
| "str_attr ANull = Inr ''NULL''"

subsection \<open>Features, layers and the expression engine\<close>

record feature =
  fid :: int
  attrs :: "(string \<times> attr) list"
  geom :: geometry

record layer =
  pendingFields :: "string list"
  getFeatures :: "feature list"

text \<open>\<open>feature[field]\<close>\<close>

definition getattr :: "feature \<Rightarrow> string \<Rightarrow> error + attr" where
  "getattr feature field =
     (case map_of (attrs feature) field of None \<Rightarrow> Inl KeyError | Some a \<Rightarrow> Inr a)"

text \<open>
  The expression engine is outside the script and stays a parameter: whether the text of
  an expression has a parser error, and the truth value of the expression on a feature
  (\<open>None\<close> when the evaluation has an error).
\<close>

datatype expression = QgsExpression string

record engine =
  hasParserError :: "expression \<Rightarrow> bool"
  evaluate :: "expression \<Rightarrow> feature \<Rightarrow> bool option"

text \<open>
  \<open>filter\<close> is a generator consumed by a \<open>for\<close> loop: the body of that loop runs on each
  feature as it is produced, so the generator is modelled together with the loop body
  \<open>body\<close> and the loop's state.
\<close>

definition filter_py ::
  "engine \<Rightarrow> layer \<Rightarrow> expression \<Rightarrow> (feature \<Rightarrow> 's \<Rightarrow> error + 's) \<Rightarrow> 's \<Rightarrow> error + 's" where
  "filter_py eng layer expr body s =
     (if hasParserError eng expr then Inl ParserError
      else efold (\<lambda>feature s.
                    case evaluate eng expr feature of
                      None \<Rightarrow> Inl EvalError
                    | Some v \<Rightarrow> if v then body feature s else Inr s)
             (getFeatures layer) s)"

fun quickLoop :: "engine \<Rightarrow> expression \<Rightarrow> feature list \<Rightarrow> error + feature option" where
  "quickLoop eng expr [] = Inr None"
| "quickLoop eng expr (feature # rest) =
     (case evaluate eng expr feature of
        None \<Rightarrow> Inl EvalError
      | Some v \<Rightarrow> if v then Inr (Some feature) else quickLoop eng expr rest)"

text \<open>Falling off the end of the loop returns Python's \<open>None\<close>.\<close>

definition quickFilter :: "engine \<Rightarrow> layer \<Rightarrow> expression \<Rightarrow> error + feature option" where
  "quickFilter eng layer expr =
     (if hasParserError eng expr then Inl ParserError
      else quickLoop eng expr (getFeatures layer))"

definition buildExpression :: "string \<Rightarrow> string \<Rightarrow> expression" where
  "buildExpression field v =
     (case float_str v of
        Some n \<Rightarrow> QgsExpression (field @ ''='' @ v)
      | None \<Rightarrow> QgsExpression (field @ [CHR ''='', CHR 0x27] @ v @ [CHR 0x27]))"

subsection \<open>Dictionaries, the spatial index and the graph\<close>

text \<open>A dictionary is an association list; \<open>d[k]\<close> raises KeyError on a missing key.\<close>

definition getitem :: "('k \<times> 'v) list \<Rightarrow> 'k \<Rightarrow> error + 'v" where
  "getitem d k = (case map_of d k of None \<Rightarrow> Inl KeyError | Some v \<Rightarrow> Inr v)"

text \<open>
  The spatial index of the geometry engine holds the id and the bounding box of every
  inserted feature (a feature whose geometry has no vertex is not inserted), and its
  range query returns the ids whose box intersects the rectangle.
\<close>

type_synonym spatialIndex = "(int \<times> bounds) list"

definition boundingBox :: "geometry \<Rightarrow> bounds option" where
  "boundingBox g =
     (case vertices g of
        [] \<Rightarrow> None
      | p # ps \<Rightarrow> Some (fold min (map fst ps) (fst p), fold min (map snd ps) (snd p),
                       fold max (map fst ps) (fst p), fold max (map snd ps) (snd p)))"

definition insertFeature :: "spatialIndex \<Rightarrow> feature \<Rightarrow> spatialIndex" where
  "insertFeature idx feature =
     (case boundingBox (geom feature) of None \<Rightarrow> idx | Some b \<Rightarrow> idx @ [(fid feature, b)])"

definition index_intersects :: "spatialIndex \<Rightarrow> bounds \<Rightarrow> int list" where
  "index_intersects idx r = map fst (filter (\<lambda>(i, b). rect_intersects b r) idx)"

record vertex =
  edges :: "string list"
  attributes :: "(string \<times> pyvalue) list option"

type_synonym graph = "(string \<times> vertex) list"

definition appendEdge :: "graph \<Rightarrow> string \<Rightarrow> string \<Rightarrow> error + graph" where
  "appendEdge dictionary k v =
     ebind (getitem dictionary k)
       (\<lambda>vx. Inr (AList.update k (vx\<lparr>edges := edges vx @ [v]\<rparr>) dictionary))"

definition updateEdges :: "graph \<Rightarrow> string \<Rightarrow> string \<Rightarrow> error + graph" where
  "updateEdges dictionary fieldValue1 fieldValue2 =
     ebind (appendEdge dictionary fieldValue1 fieldValue2)
       (\<lambda>dictionary'. appendEdge dictionary' fieldValue2 fieldValue1)"

subsection \<open>findEdges\<close>

text \<open>
  The exact intersection test of two geometries belongs to the geometry engine and is the
  parameter \<open>gi\<close>. \<open>candidatePairs\<close> is the pair of nested \<open>for\<close> loops over the
  candidate ids, with the graph and the flag \<open>finish\<close> as state; \<open>whileFinish\<close> is the
  \<open>while\<close> loop around them.
\<close>

definition candidatePairs ::
  "(geometry \<Rightarrow> geometry \<Rightarrow> bool) \<Rightarrow> (int \<times> feature) list \<Rightarrow> string \<Rightarrow> string \<Rightarrow>
   int list \<Rightarrow> int list \<Rightarrow> graph \<times> bool \<Rightarrow> error + graph \<times> bool" where
  "candidatePairs gi features value1 value2 ids1 ids2 st =
     efold (\<lambda>id1 st.
              ebind (getitem features id1) (\<lambda>feature1.
                efold (\<lambda>id2 (graphDict, finish).
                         ebind (getitem features id2) (\<lambda>feature2.
                           if gi (geom feature2) (geom feature1)
                           then ebind (updateEdges graphDict value1 value2)
                                  (\<lambda>graphDict'. Inr (graphDict', True))
                           else Inr (graphDict, finish)))
                  ids2 st))
       ids1 st"

function whileFinish ::
  "(geometry \<Rightarrow> geometry \<Rightarrow> bool) \<Rightarrow> (int \<times> feature) list \<Rightarrow> string \<Rightarrow> string \<Rightarrow>
   int list \<Rightarrow> int list \<Rightarrow> graph \<times> bool \<Rightarrow> error + graph" where
  "whileFinish gi features value1 value2 ids1 ids2 (graphDict, finish) =
     (if finish then Inr graphDict
      else (case candidatePairs gi features value1 value2 ids1 ids2 (graphDict, finish) of
              Inl e \<Rightarrow> Inl e
            | Inr (graphDict', finish') \<Rightarrow>
                whileFinish gi features value1 value2 ids1 ids2 (graphDict', True)))"
  by pat_completeness auto
termination
  by (relation "measure (\<lambda>(gi, features, value1, value2, ids1, ids2, graphDict, finish).
                           if finish then 0 else 1)") auto

text \<open>\<open>valueSet2.remove(value1)\<close>\<close>

definition set_remove :: "string list \<Rightarrow> string \<Rightarrow> error + string list" where
  "set_remove s v = (if v \<in> set s then Inr (removeAll v s) else Inl KeyError)"

text \<open>
  A Python set is the list of its elements in iteration order. Both loops run over
  \<open>valueSet\<close>; the copy \<open>valueSet2\<close> shrinks and is carried along, as in the script.
\<close>

definition groupPair ::
  "(geometry \<Rightarrow> geometry \<Rightarrow> bool) \<Rightarrow> (string \<times> bounds \<times> spatialIndex) list \<Rightarrow>
   (int \<times> feature) list \<Rightarrow> string \<Rightarrow> bounds \<Rightarrow> spatialIndex \<Rightarrow> string \<Rightarrow> graph \<Rightarrow> error + graph" where
  "groupPair gi boundsIndexDict features value1 bnds index1 value2 graphDict =
     ebind (getitem boundsIndexDict value2) (\<lambda>(tempBounds, index2).
       let rectangle1 = QgsRectangle (bxMin bnds) (byMin bnds) (bxMax bnds) (byMax bnds);
           rectangle2 = QgsRectangle (bxMin tempBounds) (byMin tempBounds)
                          (bxMax tempBounds) (byMax tempBounds)
       in if rect_intersects rectangle1 rectangle2
          then (let rectangle3 = smallRectangle bnds tempBounds;
                    ids1 = index_intersects index1 rectangle3;
                    ids2 = index_intersects index2 rectangle3
                in whileFinish gi features value1 value2 ids1 ids2 (graphDict, False))
          else Inr graphDict)"

text \<open>The body of the outer loop, on the state of \<open>valueSet2\<close> and the graph.\<close>

definition groupRow ::
  "(geometry \<Rightarrow> geometry \<Rightarrow> bool) \<Rightarrow> string list \<Rightarrow> (string \<times> bounds \<times> spatialIndex) list \<Rightarrow>
   (int \<times> feature) list \<Rightarrow> string \<Rightarrow> string list \<times> graph \<Rightarrow> error + string list \<times> graph" where
  "groupRow gi valueSet boundsIndexDict features value1 st =
     (case st of (valueSet2, graphDict) \<Rightarrow>
        ebind (set_remove valueSet2 value1) (\<lambda>valueSet2'.
        ebind (getitem boundsIndexDict value1) (\<lambda>(bnds, index1).
        ebind (efold (groupPair gi boundsIndexDict features value1 bnds index1)
                 valueSet graphDict)
          (\<lambda>graphDict'. Inr (valueSet2', graphDict')))))"

definition findEdges ::
  "(geometry \<Rightarrow> geometry \<Rightarrow> bool) \<Rightarrow> string list \<Rightarrow> (string \<times> bounds \<times> spatialIndex) list \<Rightarrow>
   graph \<Rightarrow> (int \<times> feature) list \<Rightarrow> error + graph" where
  "findEdges gi valueSet boundsIndexDict graphDict features =
     ebind (efold (groupRow gi valueSet boundsIndexDict features) valueSet (valueSet, graphDict))
       (\<lambda>(valueSet2, graphDict'). Inr graphDict')"

text \<open>Whether the edge list of the vertex \<open>k\<close> has the entry \<open>v\<close>.\<close>

definition hasEdge :: "graph \<Rightarrow> string \<Rightarrow> string \<Rightarrow> bool" where
  "hasEdge g k v = (case map_of g k of None \<Rightarrow> False | Some vx \<Rightarrow> v \<in> set (edges vx))"

subsection \<open>Building the groups, the attributes and the graph\<close>

definition set_add :: "string list \<Rightarrow> string \<Rightarrow> string list" where
  "set_add s v = (if v \<in> set s then s else s @ [v])"

text \<open>
  The first three results of \<open>processParameters\<close> and the field names; the layer itself
  is its argument. A new element of a set is put last in its iteration order.
\<close>

definition processParameters ::
  "layer \<Rightarrow> string \<Rightarrow> error + (int \<times> feature) list \<times> string list \<times> graph \<times> string list" where
  "processParameters inputLayer fieldName =
     ebind (efold (\<lambda>feature (fieldValues, allFeatures).
                     ebind (getattr feature fieldName) (\<lambda>a.
                     ebind (str_attr a) (\<lambda>s.
                       Inr (set_add fieldValues s, AList.update (fid feature) feature allFeatures))))
              (getFeatures inputLayer) ([], []))
       (\<lambda>(fieldValues, allFeatures).
     ebind (efold (\<lambda>field layerFields. ebind (str_py field) (\<lambda>n. Inr (layerFields @ [n])))
              (pendingFields inputLayer) [])
       (\<lambda>layerFields.
          let graphDictionary =
                fold (\<lambda>v g. AList.update v \<lparr>edges = [], attributes = None\<rparr> g) fieldValues []
          in Inr (allFeatures, fieldValues, graphDictionary, layerFields)))"

text \<open>The body of the loop of \<open>boundsAndIndexDict\<close> for one value.\<close>

definition boundsAndIndex ::
  "engine \<Rightarrow> layer \<Rightarrow> string \<Rightarrow> string \<Rightarrow> error + bounds \<times> spatialIndex" where
  "boundsAndIndex eng layer field v =
     (let expression = buildExpression field v in
      ebind (filter_py eng layer expression
               (\<lambda>feature (spatialIndex, x, y).
                  let g = geom feature;
                      spatialIndex' = insertFeature spatialIndex feature
                  in ebind (rectBounds g) (\<lambda>featureBounds.
                       Inr (spatialIndex',
                            x @ [bxMin featureBounds, bxMax featureBounds],
                            y @ [byMin featureBounds, byMax featureBounds])))
               ([], [], []))
        (\<lambda>(spatialIndex, x, y).
           ebind (pymin x) (\<lambda>x0. ebind (pymin y) (\<lambda>y0.
           ebind (pymax x) (\<lambda>x1. ebind (pymax y) (\<lambda>y1.
             Inr ((x0, y0, x1, y1), spatialIndex)))))))"

definition boundsAndIndexDict ::
  "engine \<Rightarrow> layer \<Rightarrow> string list \<Rightarrow> string \<Rightarrow> error + (string \<times> bounds \<times> spatialIndex) list" where
  "boundsAndIndexDict eng layer valueSet field =
     efold (\<lambda>v boundsIndexDict.
              ebind (boundsAndIndex eng layer field v)
                (\<lambda>entry. Inr (AList.update v entry boundsIndexDict)))
       valueSet []"

text \<open>
  \<open>featureInstance[field]\<close>, where \<open>featureInstance\<close> is \<open>None\<close> when \<open>quickFilter\<close>
  found no feature.
\<close>

fun subscript :: "feature option \<Rightarrow> string \<Rightarrow> error + attr" where
  "subscript None field = Inl TypeError"
| "subscript (Some feature) field = getattr feature field"

text \<open>The \<open>try\<close> with its bare \<open>except\<close>: any exception of the first line leads to the second.\<close>

definition attributeValue :: "feature option \<Rightarrow> string \<Rightarrow> error + pyvalue" where
  "attributeValue featureInstance field =
     (case ebind (subscript featureInstance field) float_attr of
        Inr n \<Rightarrow> Inr (Number n)
      | Inl e \<Rightarrow> ebind (subscript featureInstance field) (\<lambda>a.
                 ebind (str_attr a) (\<lambda>s. Inr (Text s))))"

text \<open>
  The representative feature of a key and the attribute dictionary built from it: the
  first lines of the loop body of \<open>addAttributesDict\<close>.
\<close>

definition attributesDictionary ::
  "engine \<Rightarrow> layer \<Rightarrow> string \<Rightarrow> string list \<Rightarrow> string \<Rightarrow> error + (string \<times> pyvalue) list" where
  "attributesDictionary eng layer vertexField layerFields key =
     (let expression = buildExpression vertexField key in
      ebind (quickFilter eng layer expression) (\<lambda>featureInstance.
        efold (\<lambda>field attributesDictionary.
                 ebind (attributeValue featureInstance field)
                   (\<lambda>v. Inr (AList.update field v attributesDictionary)))
          layerFields []))"

definition addAttributesDict ::
  "engine \<Rightarrow> layer \<Rightarrow> string \<Rightarrow> string list \<Rightarrow> graph \<Rightarrow> error + graph" where
  "addAttributesDict eng layer vertexField layerFields graphDictionary =
     efold (\<lambda>key g.
              ebind (attributesDictionary eng layer vertexField layerFields key)
                (\<lambda>attributesDictionary.
              ebind (getitem g key) (\<lambda>vx.
                Inr (AList.update key (vx\<lparr>attributes := Some attributesDictionary\<rparr>) g))))
       (map fst graphDictionary) graphDictionary"

definition buildGraph ::
  "engine \<Rightarrow> (geometry \<Rightarrow> geometry \<Rightarrow> bool) \<Rightarrow> layer \<Rightarrow> string \<Rightarrow> error + graph" where
  "buildGraph eng gi layer field =
     ebind (processParameters layer field)
       (\<lambda>(allFeatures, fieldValues, graphDict, layerFields).
     ebind (boundsAndIndexDict eng layer fieldValues field) (\<lambda>bdsIdxDict.
     ebind (findEdges gi fieldValues bdsIdxDict graphDict allFeatures) (\<lambda>graphDict'.
       addAttributesDict eng layer field layerFields graphDict')))"

subsection \<open>Notions used in the properties\<close>

text \<open>The set of all entries of all edge lists.\<close>

definition edgeSet :: "graph \<Rightarrow> (string \<times> string) set" where
  "edgeSet g = {(k, v). hasEdge g k v}"

text \<open>
  The exact test of \<open>findEdges\<close> on the candidates \<open>id1\<close> and \<open>id2\<close>, when both are
  keys of \<open>features\<close>.
\<close>

definition hit :: "(geometry \<Rightarrow> geometry \<Rightarrow> bool) \<Rightarrow> (int \<times> feature) list \<Rightarrow> int \<Rightarrow> int \<Rightarrow> bool" where
  "hit gi features id1 id2 =
     (case map_of features id1 of
        None \<Rightarrow> False
      | Some f1 \<Rightarrow> (case map_of features id2 of None \<Rightarrow> False | Some f2 \<Rightarrow> gi (geom f2) (geom f1)))"

text \<open>
  The entries that the evaluation of the pair \<open>(value1, value2)\<close> adds, and the entries
  that one round of the outer loop adds.
\<close>

definition pairEdges ::
  "(geometry \<Rightarrow> geometry \<Rightarrow> bool) \<Rightarrow> (string \<times> bounds \<times> spatialIndex) list \<Rightarrow>
   (int \<times> feature) list \<Rightarrow> string \<Rightarrow> bounds \<Rightarrow> spatialIndex \<Rightarrow> string \<Rightarrow> (string \<times> string) set" where
  "pairEdges gi boundsIndexDict features value1 bnds index1 value2 =
     (case map_of boundsIndexDict value2 of
        None \<Rightarrow> {}
      | Some (tempBounds, index2) \<Rightarrow>
          if rect_intersects (QgsRectangle (bxMin bnds) (byMin bnds) (bxMax bnds) (byMax bnds))
               (QgsRectangle (bxMin tempBounds) (byMin tempBounds) (bxMax tempBounds) (byMax tempBounds)) \<and>
             list_ex (\<lambda>id1. list_ex (hit gi features id1)
                              (index_intersects index2 (smallRectangle bnds tempBounds)))
               (index_intersects index1 (smallRectangle bnds tempBounds))
          then {(value1, value2), (value2, value1)}
          else {})"

definition rowEdges ::
  "(geometry \<Rightarrow> geometry \<Rightarrow> bool) \<Rightarrow> string list \<Rightarrow> (string \<times> bounds \<times> spatialIndex) list \<Rightarrow>
   (int \<times> feature) list \<Rightarrow> string \<Rightarrow> (string \<times> string) set" where
  "rowEdges gi valueSet boundsIndexDict features value1 =
     (case map_of boundsIndexDict value1 of
        None \<Rightarrow> {}
      | Some (bnds, index1) \<Rightarrow>
          (\<Union>value2\<in>set valueSet. pairEdges gi boundsIndexDict features value1 bnds index1 value2))"

subsection \<open>Sample data\<close>

text \<open>
  Axis-parallel squares, for which two geometries intersect exactly when their bounding
  boxes do; an expression engine without errors that accepts a feature when the expression
  is the one built from the feature's own value of the field \<open>k\<close>.
\<close>

definition square :: "real \<Rightarrow> real \<Rightarrow> real \<Rightarrow> real \<Rightarrow> geometry" where
  "square x0 y0 x1 y1 = Polygon [[(x0, y0), (x1, y0), (x1, y1), (x0, y1), (x0, y0)]]"

text \<open>The same square with its ring starting at the upper right corner.\<close>

definition square_ur :: "real \<Rightarrow> real \<Rightarrow> real \<Rightarrow> real \<Rightarrow> geometry" where
  "square_ur x0 y0 x1 y1 = Polygon [[(x1, y1), (x0, y1), (x0, y0), (x1, y0), (x1, y1)]]"

definition boxes_intersect :: "geometry \<Rightarrow> geometry \<Rightarrow> bool" where
  "boxes_intersect g h =
     (case boundingBox g of
        None \<Rightarrow> False
      | Some a \<Rightarrow> (case boundingBox h of None \<Rightarrow> False | Some b \<Rightarrow> rect_intersects a b))"

definition key_engine :: engine where
  "key_engine =
     \<lparr>hasParserError = (\<lambda>e. False),
      evaluate = (\<lambda>e f. case ebind (getattr f ''k'') str_attr of
                           Inl err \<Rightarrow> None
                         | Inr s \<Rightarrow> Some (e = buildExpression ''k'' s))\<rparr>"

definition mkFeature :: "int \<Rightarrow> string \<Rightarrow> geometry \<Rightarrow> feature" where
  "mkFeature i k g = \<lparr>fid = i, attrs = [(''k'', AStr k)], geom = g\<rparr>"

text \<open>
  Group \<open>x\<close> has two disjoint squares, group \<open>y\<close> one square that touches only the
  second square of \<open>x\<close>, at the corner \<open>(4, 1)\<close>, where the rings of both start.
\<close>

definition feature_x1 :: feature where "feature_x1 = mkFeature 1 ''x'' (square 0 0 1 1)"
definition feature_x2 :: feature where "feature_x2 = mkFeature 2 ''x'' (square_ur 3 0 4 1)"
definition feature_y1 :: feature where "feature_y1 = mkFeature 3 ''y'' (square 4 1 5 2)"

definition xy_features :: "(int \<times> feature) list" where
  "xy_features = [(1, feature_x1), (2, feature_x2), (3, feature_y1)]"

definition xy_layer :: layer where
  "xy_layer = \<lparr>pendingFields = [''k''], getFeatures = [feature_x1, feature_x2, feature_y1]\<rparr>"

text \<open>
  The groups that \<open>boundsAndIndexDict\<close> builds of these features: the bounds of a group
  are those of the first ring vertices of its members, the index holds their bounding
  boxes.
\<close>

definition xy_groups :: "(string \<times> bounds \<times> spatialIndex) list" where
  "xy_groups =
     [(''x'', (0, 0, 4, 1), [(1, (0, 0, 1, 1)), (2, (3, 0, 4, 1))]),
      (''y'', (4, 1, 4, 1), [(3, (4, 1, 5, 2))])]"

text \<open>A feature that is no polygon, and a feature with a numeric and a non-numeric text.\<close>

definition feature_p :: feature where "feature_p = mkFeature 4 ''p'' (NonPolygon [(0, 0)])"

definition p_layer :: layer where
  "p_layer = \<lparr>pendingFields = [''k''], getFeatures = [feature_p]\<rparr>"

definition feature_n :: feature where
  "feature_n =
     \<lparr>fid = 7, attrs = [(''k'', AStr ''a''), (''n'', AStr ''42''), (''d'', AStr ''north'')],
      geom = square 0 0 1 1\<rparr>"

definition n_layer :: layer where
  "n_layer = \<lparr>pendingFields = [''k'', ''n'', ''d''], getFeatures = [feature_n]\<rparr>"

definition emptyVertex :: vertex where
  "emptyVertex = \<lparr>edges = [], attributes = None\<rparr>"

definition xy_graph :: graph where
  "xy_graph = [(''x'', emptyVertex), (''y'', emptyVertex)]"

text \<open>
  Two groups of one square each; the squares touch at the corner \<open>(1, 1)\<close>, where
  their rings start.
\<close>

definition feature_a :: feature where "feature_a = mkFeature 1 ''a'' (square_ur 0 0 1 1)"
definition feature_b :: feature where "feature_b = mkFeature 2 ''b'' (square 1 1 2 2)"

definition ab_features :: "(int \<times> feature) list" where
  "ab_features = [(1, feature_a), (2, feature_b)]"

definition ab_layer :: layer where
  "ab_layer = \<lparr>pendingFields = [''k''], getFeatures = [feature_a, feature_b]\<rparr>"

definition ab_groups :: "(string \<times> bounds \<times> spatialIndex) list" where
  "ab_groups =
     [(''a'', (1, 1, 1, 1), [(1, (0, 0, 1, 1))]),
      (''b'', (1, 1, 1, 1), [(2, (1, 1, 2, 2))])]"

definition ab_graph :: graph where
  "ab_graph = [(''a'', emptyVertex), (''b'', emptyVertex)]"

text \<open>A third group \<open>c\<close> of one square, away from the squares of \<open>a\<close> and \<open>b\<close>.\<close>

definition feature_c :: feature where "feature_c = mkFeature 3 ''c'' (square 5 5 6 6)"

definition abc_features :: "(int \<times> feature) list" where
  "abc_features = [(1, feature_a), (2, feature_b), (3, feature_c)]"

definition abc_layer :: layer where
  "abc_layer = \<lparr>pendingFields = [''k''], getFeatures = [feature_a, feature_b, feature_c]\<rparr>"

definition abc_groups :: "(string \<times> bounds \<times> spatialIndex) list" where
  "abc_groups =
     [(''a'', (1, 1, 1, 1), [(1, (0, 0, 1, 1))]),
      (''b'', (1, 1, 1, 1), [(2, (1, 1, 2, 2))]),
      (''c'', (5, 5, 5, 5), [(3, (5, 5, 6, 6))])]"

definition abc_graph :: graph where
  "abc_graph = [(''a'', emptyVertex), (''b'', emptyVertex), (''c'', emptyVertex)]"

section \<open>Properties\<close>

subsection \<open>Rectangles\<close>

lemmas bounds_defs = bxMin_def byMin_def bxMax_def byMax_def

text \<open>
  Claim C2 (rectBounds encloses every vertex of the outer ring). The loop of
  \<open>rectBounds\<close> runs over the number of rings, not over the length of the outer ring:
  for the unit square, a polygon with one ring, it reads the first vertex alone and
  returns the rectangle of that single point, which does not enclose the vertex
  \<open>(1, 1)\<close>.
\<close>

theorem rectBounds_unit_square:
  "rectBounds (square 0 0 1 1) = Inr (0, 0, 0, 0) \<and>
   (1, 1) \<in> set (hd (asPolygon (square 0 0 1 1)))"
  by code_simp

text \<open>
  Claim C6, as stated: the overlap rectangle of two boxes that pass the prefilter is
  non-degenerate. It fails for two boxes that touch at a corner: they pass the prefilter
  and their overlap rectangle is the single point \<open>(1, 1)\<close>.
\<close>

theorem smallRectangle_degenerate:
  "rect_intersects (QgsRectangle 0 0 1 1) (QgsRectangle 1 1 2 2) \<and>
   smallRectangle (0, 0, 1, 1) (1, 1, 2, 2) = (1, 1, 1, 1) \<and>
   \<not> bxMin (smallRectangle (0, 0, 1, 1) (1, 1, 2, 2)) < bxMax (smallRectangle (0, 0, 1, 1) (1, 1, 2, 2))"
  by (simp add: bounds_defs QgsRectangle_def rect_intersects_def smallRectangle_def)

text \<open>
  Claim C6, amended: for two bounding boxes with ordered corners (as
  \<open>boundsAndIndexDict\<close> builds them) that pass the prefilter, the overlap rectangle has
  the larger of the two lower bounds and the smaller of the two upper bounds on each
  axis, and its corners are ordered: \<open>xMin \<le> xMax\<close> and \<open>yMin \<le> yMax\<close>, where
  equality is possible.
\<close>

theorem smallRectangle_overlap:
  assumes "bxMin b1 \<le> bxMax b1" and "byMin b1 \<le> byMax b1"
    and "bxMin b2 \<le> bxMax b2" and "byMin b2 \<le> byMax b2"
    and "rect_intersects (QgsRectangle (bxMin b1) (byMin b1) (bxMax b1) (byMax b1))
           (QgsRectangle (bxMin b2) (byMin b2) (bxMax b2) (byMax b2))"
  shows "smallRectangle b1 b2 =
           (max (bxMin b1) (bxMin b2), max (byMin b1) (byMin b2),
            min (bxMax b1) (bxMax b2), min (byMax b1) (byMax b2)) \<and>
         bxMin (smallRectangle b1 b2) \<le> bxMax (smallRectangle b1 b2) \<and>
         byMin (smallRectangle b1 b2) \<le> byMax (smallRectangle b1 b2)"
  using assms
  by (auto simp: bounds_defs QgsRectangle_def rect_intersects_def smallRectangle_def Let_def)

theorem smallRectangle_overlap_witness:
  "smallRectangle (0, 0, 2, 2) (1, 1, 3, 3) = (1, 1, 2, 2) \<and>
   bxMin (smallRectangle (0, 0, 2, 2) (1, 1, 3, 3)) \<le> bxMax (smallRectangle (0, 0, 2, 2) (1, 1, 3, 3)) \<and>
   byMin (smallRectangle (0, 0, 2, 2) (1, 1, 3, 3)) \<le> byMax (smallRectangle (0, 0, 2, 2) (1, 1, 3, 3))"
  using smallRectangle_overlap [of "(0, 0, 2, 2)" "(1, 1, 3, 3)"]
  by (simp add: bounds_defs QgsRectangle_def rect_intersects_def)

subsection \<open>quickFilter\<close>

lemma quickLoop_find:
  "quickLoop eng expr fs =
     (case find (\<lambda>f. evaluate eng expr f \<noteq> Some False) fs of
        None \<Rightarrow> Inr None
      | Some f \<Rightarrow> if evaluate eng expr f = None then Inl EvalError else Inr (Some f))"
  by (induction fs) (auto split: option.splits)

text \<open>
  Claim C8, as stated: \<open>quickFilter\<close> fails when no feature satisfies the predicate. On
  the layer of the features \<open>x1\<close>, \<open>x2\<close>, \<open>y1\<close> no feature has the key \<open>z\<close>, and
  \<open>quickFilter\<close> returns \<open>None\<close> without an error.
\<close>

theorem quickFilter_no_match_returns_None:
  "quickFilter key_engine xy_layer (buildExpression ''k'' ''z'') = Inr None"
  by code_simp

text \<open>
  Claim C8, amended: \<open>quickFilter\<close> raises when the expression has a parser error;
  otherwise the first feature in source order on which the expression is not false
  decides: it is returned when the expression is true on it, and the evaluation error is
  raised when the evaluation fails on it. When the expression is false on every feature
  the result is \<open>None\<close>, and no error is raised.
\<close>

theorem quickFilter_first_match:
  "quickFilter eng layer expr =
     (if hasParserError eng expr then Inl ParserError
      else case find (\<lambda>f. evaluate eng expr f \<noteq> Some False) (getFeatures layer) of
             None \<Rightarrow> Inr None
           | Some f \<Rightarrow> if evaluate eng expr f = None then Inl EvalError else Inr (Some f))"
  by (simp add: quickFilter_def quickLoop_find)

subsection \<open>findEdges on concrete groups\<close>

text \<open>
  Claim C1 (one edge per unordered group pair, and no further test after the first
  intersection). Group \<open>x\<close> has two disjoint squares and group \<open>y\<close> one square touching
  only the second square of \<open>x\<close>. On the values, features and graph of
  \<open>processParameters\<close> and the groups of \<open>boundsAndIndexDict\<close>, \<open>findEdges\<close> appends
  \<open>y\<close> twice to the edge list of \<open>x\<close> and \<open>x\<close> twice to the edge list of \<open>y\<close>; the
  self-pair of \<open>x\<close>, with two intersecting candidate pairs, gives four entries \<open>x\<close>.
\<close>

theorem findEdges_xy_edge_twice:
  "processParameters xy_layer ''k'' = Inr (xy_features, [''x'', ''y''], xy_graph, [''k'']) \<and>
   boundsAndIndexDict key_engine xy_layer [''x'', ''y''] ''k'' = Inr xy_groups \<and>
   findEdges boxes_intersect [''x'', ''y''] xy_groups xy_graph xy_features =
     Inr [(''x'', \<lparr>edges = [''x'', ''x'', ''x'', ''x'', ''y'', ''y''], attributes = None\<rparr>),
          (''y'', \<lparr>edges = [''x'', ''x'', ''y'', ''y''], attributes = None\<rparr>)]"
  by code_simp

text \<open>
  Claim C3 (every unordered pair of keys is evaluated once). Two groups \<open>a\<close> and \<open>b\<close> of
  one square each, touching at a corner: a single pair of features intersects, and on
  the values, features and graph of \<open>processParameters\<close> and the groups of
  \<open>boundsAndIndexDict\<close>, \<open>findEdges\<close> records the edge between \<open>a\<close> and \<open>b\<close> twice on
  each side, once for the pair \<open>(a, b)\<close> and once for the pair \<open>(b, a)\<close>.
\<close>

theorem findEdges_ab_both_orders:
  "processParameters ab_layer ''k'' = Inr (ab_features, [''a'', ''b''], ab_graph, [''k'']) \<and>
   boundsAndIndexDict key_engine ab_layer [''a'', ''b''] ''k'' = Inr ab_groups \<and>
   findEdges boxes_intersect [''a'', ''b''] ab_groups ab_graph ab_features =
     Inr [(''a'', \<lparr>edges = [''a'', ''a'', ''b'', ''b''], attributes = None\<rparr>),
          (''b'', \<lparr>edges = [''a'', ''a'', ''b'', ''b''], attributes = None\<rparr>)]"
  by code_simp

subsection \<open>Loops that may raise\<close>

lemma ebind_Inr [simp]: "ebind (Inr a) f = f a"
  by (simp add: ebind_def)

lemma ebind_Inl [simp]: "ebind (Inl e) f = Inl e"
  by (simp add: ebind_def)

lemma ebind_eq_Inr: "ebind m f = Inr b \<longleftrightarrow> (\<exists>a. m = Inr a \<and> f a = Inr b)"
  by (cases m) simp_all

lemma efold_invariant:
  assumes "efold f as s = Inr s'" and "I s"
    and "\<And>a s t. a \<in> set as \<Longrightarrow> I s \<Longrightarrow> f a s = Inr t \<Longrightarrow> I t"
  shows "I s'"
  using assms
proof (induction as arbitrary: s)
  case Nil
  then show ?case by simp
next
  case (Cons a as)
  from Cons.prems(1) obtain t where t: "f a s = Inr t" "efold f as t = Inr s'"
    by (auto split: sum.splits)
  have "I t" using Cons.prems(2,3) t(1) by auto
  then show ?case using Cons.IH [OF t(2)] Cons.prems(3) by auto
qed

lemma efold_fails:
  assumes "a \<in> set as" and "\<And>s. \<exists>e. f a s = Inl e"
  shows "\<exists>e. efold f as s = Inl e"
  using assms(1)
proof (induction as arbitrary: s)
  case Nil
  then show ?case by simp
next
  case (Cons b bs)
  show ?case
  proof (cases "f b s")
    case (Inl e)
    then show ?thesis by simp
  next
    case (Inr t)
    show ?thesis
    proof (cases "a = b")
      case True
      with assms(2) [of s] Inr show ?thesis by simp
    next
      case False
      with Cons.prems have "a \<in> set bs" by simp
      from Cons.IH [OF this, of t] Inr show ?thesis by simp
    qed
  qed
qed

lemma rectBounds_no_ring: "asPolygon g = [] \<Longrightarrow> rectBounds g = Inl EmptySequence"
  by (simp add: rectBounds_def pymin_def)

lemma filter_py_fails:
  assumes "f \<in> set (getFeatures layer)" and "evaluate eng expr f = Some True"
    and "\<And>s. \<exists>e. body f s = Inl e"
  shows "\<exists>e. filter_py eng layer expr body s = Inl e"
proof (cases "hasParserError eng expr")
  case True
  then show ?thesis by (simp add: filter_py_def)
next
  case False
  have "\<exists>e. efold (\<lambda>feature s. case evaluate eng expr feature of
                      None \<Rightarrow> Inl EvalError
                    | Some v \<Rightarrow> if v then body feature s else Inr s) (getFeatures layer) s = Inl e"
    by (rule efold_fails [OF assms(1)]) (simp add: assms(2,3))
  with False show ?thesis by (simp add: filter_py_def)
qed

lemma filter_py_unchanged:
  assumes "filter_py eng layer expr body s = Inr s'"
    and "\<not> list_ex (\<lambda>f. evaluate eng expr f = Some True) (getFeatures layer)"
  shows "s' = s"
proof -
  have "efold (\<lambda>feature s. case evaluate eng expr feature of
                      None \<Rightarrow> Inl EvalError
                    | Some v \<Rightarrow> if v then body feature s else Inr s) fs s = Inr s'
        \<Longrightarrow> \<not> list_ex (\<lambda>f. evaluate eng expr f = Some True) fs \<Longrightarrow> s' = s" for fs
    by (induction fs) (auto split: option.splits if_splits)
  with assms show ?thesis by (auto simp: filter_py_def split: if_splits)
qed

lemma filter_py_all_False:
  assumes "\<not> hasParserError eng expr"
    and "list_all (\<lambda>f. evaluate eng expr f = Some False) (getFeatures layer)"
  shows "filter_py eng layer expr body s = Inr s"
proof -
  have "list_all (\<lambda>f. evaluate eng expr f = Some False) fs \<Longrightarrow>
        efold (\<lambda>feature s. case evaluate eng expr feature of
                      None \<Rightarrow> Inl EvalError
                    | Some v \<Rightarrow> if v then body feature s else Inr s) fs s = Inr s" for fs
    by (induction fs) auto
  with assms show ?thesis by (simp add: filter_py_def)
qed

lemma boundsAndIndex_fails_no_ring:
  assumes "f \<in> set (getFeatures layer)"
    and "evaluate eng (buildExpression field v) f = Some True"
    and "asPolygon (geom f) = []"
  shows "\<exists>e. boundsAndIndex eng layer field v = Inl e"
proof -
  let ?body = "\<lambda>feature (spatialIndex, x, y).
                  let g = geom feature;
                      spatialIndex' = insertFeature spatialIndex feature
                  in ebind (rectBounds g) (\<lambda>featureBounds.
                       Inr (spatialIndex',
                            x @ [bxMin featureBounds, bxMax featureBounds],
                            y @ [byMin featureBounds, byMax featureBounds]))"
  have "\<exists>e. ?body f s = Inl e" for s
    by (cases s) (simp add: rectBounds_no_ring [OF assms(3)] Let_def split: prod.splits)
  from filter_py_fails [OF assms(1,2), where body = ?body, OF this]
  obtain e where "filter_py eng layer (buildExpression field v) ?body ([], [], []) = Inl e"
    by blast
  then show ?thesis by (simp add: boundsAndIndex_def Let_def)
qed

lemma boundsAndIndexDict_fails:
  assumes "v \<in> set valueSet" and "boundsAndIndex eng layer field v = Inl e"
  shows "\<exists>e'. boundsAndIndexDict eng layer valueSet field = Inl e'"
  unfolding boundsAndIndexDict_def
  by (rule efold_fails [OF assms(1)]) (simp add: assms(2))

lemma boundsAndIndexDict_entries:
  assumes "boundsAndIndexDict eng layer valueSet field = Inr d" and "v \<in> set valueSet"
  shows "\<exists>entry. boundsAndIndex eng layer field v = Inr entry"
proof (cases "boundsAndIndex eng layer field v")
  case (Inl e)
  from boundsAndIndexDict_fails [OF assms(2) Inl] assms(1) show ?thesis by simp
next
  case (Inr entry)
  then show ?thesis by simp
qed

lemma boundsAndIndex_no_match:
  assumes "\<not> hasParserError eng (buildExpression field v)"
    and "list_all (\<lambda>f. evaluate eng (buildExpression field v) f = Some False) (getFeatures layer)"
  shows "boundsAndIndex eng layer field v = Inl EmptySequence"
  by (simp add: boundsAndIndex_def Let_def filter_py_all_False [OF assms] pymin_def)

lemma boundsAndIndex_has_match:
  assumes "boundsAndIndex eng layer field v = Inr entry"
  shows "list_ex (\<lambda>f. evaluate eng (buildExpression field v) f = Some True) (getFeatures layer)"
proof (rule ccontr)
  assume no: "\<not> ?thesis"
  let ?body = "\<lambda>feature (spatialIndex, x, y).
                  let g = geom feature;
                      spatialIndex' = insertFeature spatialIndex feature
                  in ebind (rectBounds g) (\<lambda>featureBounds.
                       Inr (spatialIndex',
                            x @ [bxMin featureBounds, bxMax featureBounds],
                            y @ [byMin featureBounds, byMax featureBounds]))"
  from assms obtain st where st: "filter_py eng layer (buildExpression field v) ?body ([], [], []) = Inr st"
    by (auto simp: boundsAndIndex_def Let_def ebind_eq_Inr)
  from filter_py_unchanged [OF st no] have "st = ([], [], [])" .
  with assms st show False by (simp add: boundsAndIndex_def Let_def pymin_def)
qed


text \<open>
  Claim C9: \<open>rectBounds\<close> fails on a geometry without a polygon ring (the exception is
  the ValueError of \<open>min\<close> on the empty coordinate list), and the failure ends the run:
  when \<open>boundsAndIndexDict\<close> meets such a feature among the features of a key,
  \<open>buildGraph\<close> ends with an exception.
\<close>

theorem rectBounds_no_ring_aborts:
  assumes "asPolygon (geom f) = []"
    and "f \<in> set (getFeatures layer)"
    and "evaluate eng (buildExpression field v) f = Some True"
    and "processParameters layer field = Inr (allFeatures, fieldValues, graphDict, layerFields)"
    and "v \<in> set fieldValues"
  shows "rectBounds (geom f) = Inl EmptySequence \<and> (\<exists>e. buildGraph eng gi layer field = Inl e)"
proof -
  from boundsAndIndex_fails_no_ring [OF assms(2,3,1)]
  obtain e where "boundsAndIndex eng layer field v = Inl e" by blast
  from boundsAndIndexDict_fails [OF assms(5) this]
  obtain e' where "boundsAndIndexDict eng layer fieldValues field = Inl e'" by blast
  then have "buildGraph eng gi layer field = Inl e'"
    by (simp add: buildGraph_def assms(4))
  with rectBounds_no_ring [OF assms(1)] show ?thesis by blast
qed

theorem rectBounds_no_ring_aborts_witness:
  "asPolygon (geom feature_p) = [] \<and> feature_p \<in> set (getFeatures p_layer) \<and>
   evaluate key_engine (buildExpression ''k'' ''p'') feature_p = Some True \<and>
   rectBounds (geom feature_p) = Inl EmptySequence \<and>
   (\<exists>e. buildGraph key_engine boxes_intersect p_layer ''k'' = Inl e)"
proof -
  have h1: "asPolygon (geom feature_p) = []" by code_simp
  have h2: "feature_p \<in> set (getFeatures p_layer)" by (simp add: p_layer_def)
  have h3: "evaluate key_engine (buildExpression ''k'' ''p'') feature_p = Some True" by code_simp
  have h4: "processParameters p_layer ''k'' =
      Inr ([(4, feature_p)], [''p''], [(''p'', \<lparr>edges = [], attributes = None\<rparr>)], [''k''])"
    by code_simp
  have h5: "''p'' \<in> set [''p'']" by simp
  from rectBounds_no_ring_aborts [OF h1 h2 h3 h4 h5, of boxes_intersect] h1 h2 h3
  show ?thesis by blast
qed


text \<open>
  Claim C10: when the expression built from a key has no parser error and is false on
  every feature of the layer, the loop body of \<open>boundsAndIndexDict\<close> for that key fails
  with the ValueError of \<open>min\<close> on the empty list, and with it \<open>boundsAndIndexDict\<close>
  fails; when \<open>boundsAndIndexDict\<close> succeeds, the expression of every key is true on at
  least one feature.
\<close>

theorem boundsAndIndexDict_needs_match:
  "(\<not> hasParserError eng (buildExpression field v) \<and>
    list_all (\<lambda>f. evaluate eng (buildExpression field v) f = Some False) (getFeatures layer)
      \<longrightarrow> boundsAndIndex eng layer field v = Inl EmptySequence \<and>
          (v \<in> set valueSet \<longrightarrow> (\<exists>e. boundsAndIndexDict eng layer valueSet field = Inl e))) \<and>
   (boundsAndIndexDict eng layer valueSet field = Inr d \<and> v \<in> set valueSet
      \<longrightarrow> list_ex (\<lambda>f. evaluate eng (buildExpression field v) f = Some True) (getFeatures layer))"
  using boundsAndIndex_no_match [of eng field v layer]
    boundsAndIndexDict_fails [of v valueSet eng layer field EmptySequence]
    boundsAndIndexDict_entries [of eng layer valueSet field d v]
    boundsAndIndex_has_match [of eng layer field v]
  by blast

theorem boundsAndIndexDict_needs_match_witness:
  "\<not> hasParserError key_engine (buildExpression ''k'' ''z'') \<and>
   list_all (\<lambda>f. evaluate key_engine (buildExpression ''k'' ''z'') f = Some False) (getFeatures xy_layer) \<and>
   boundsAndIndex key_engine xy_layer ''k'' ''z'' = Inl EmptySequence \<and>
   (\<exists>e. boundsAndIndexDict key_engine xy_layer [''x'', ''z''] ''k'' = Inl e) \<and>
   boundsAndIndexDict key_engine xy_layer [''x'', ''y''] ''k'' =
     Inr xy_groups \<and>
   list_ex (\<lambda>f. evaluate key_engine (buildExpression ''k'' ''y'') f = Some True) (getFeatures xy_layer)"
proof -
  have h1: "\<not> hasParserError key_engine (buildExpression ''k'' ''z'')" by code_simp
  have h2: "list_all (\<lambda>f. evaluate key_engine (buildExpression ''k'' ''z'') f = Some False) (getFeatures xy_layer)"
    by code_simp
  have h3: "''z'' \<in> set [''x'', ''z'']" by simp
  have h4: "boundsAndIndexDict key_engine xy_layer [''x'', ''y''] ''k'' =
     Inr xy_groups" by code_simp
  have h5: "''y'' \<in> set [''x'', ''y'']" by simp
  from boundsAndIndexDict_needs_match [of key_engine "''k''" "''z''" xy_layer "[''x'', ''z'']"] h1 h2 h3
  have a: "boundsAndIndex key_engine xy_layer ''k'' ''z'' = Inl EmptySequence \<and>
   (\<exists>e. boundsAndIndexDict key_engine xy_layer [''x'', ''z''] ''k'' = Inl e)" by blast
  from boundsAndIndexDict_needs_match [of key_engine "''k''" "''y''" xy_layer "[''x'', ''y'']"] h4 h5
  have b: "list_ex (\<lambda>f. evaluate key_engine (buildExpression ''k'' ''y'') f = Some True) (getFeatures xy_layer)"
    by blast
  from h1 h2 a h4 b show ?thesis by blast
qed

subsection \<open>Attributes\<close>

lemma attributeValue_None: "attributeValue None field = Inl TypeError"
  by (simp add: attributeValue_def)

lemma attributeValue_Some:
  "attributeValue (Some rep) field = Inr val \<longleftrightarrow>
     (\<exists>a. getattr rep field = Inr a \<and>
        (case float_attr a of
           Inr n \<Rightarrow> val = Number n
         | Inl e \<Rightarrow> \<exists>s. str_attr a = Inr s \<and> val = Text s))"
  by (cases "getattr rep field"; cases "float_attr (projr (getattr rep field))")
     (auto simp: attributeValue_def ebind_eq_Inr)

lemma attribute_loop:
  assumes "efold (\<lambda>field attributesDictionary.
                 ebind (attributeValue fi field)
                   (\<lambda>v. Inr (AList.update field v attributesDictionary))) flds ad0 = Inr ad"
  shows "fst ` set ad = fst ` set ad0 \<union> set flds \<and>
         (\<forall>field\<in>set flds. \<exists>val. attributeValue fi field = Inr val \<and> map_of ad field = Some val) \<and>
         (\<forall>field. field \<notin> set flds \<longrightarrow> map_of ad field = map_of ad0 field)"
  using assms
proof (induction flds arbitrary: ad0)
  case Nil
  then show ?case by simp
next
  case (Cons f fs)
  from Cons.prems obtain val where val: "attributeValue fi f = Inr val"
    and rest: "efold (\<lambda>field attributesDictionary.
                 ebind (attributeValue fi field)
                   (\<lambda>v. Inr (AList.update field v attributesDictionary))) fs (AList.update f val ad0) = Inr ad"
    by (auto simp: ebind_eq_Inr split: sum.splits)
  note IH = Cons.IH [OF rest]
  have dom: "fst ` set ad = fst ` set ad0 \<union> set (f # fs)"
    using IH by (auto simp: dom_update)
  have f: "map_of ad f = Some val"
  proof (cases "f \<in> set fs")
    case True
    with IH val show ?thesis by auto
  next
    case False
    with IH have "map_of ad f = map_of (AList.update f val ad0) f" by blast
    then show ?thesis by (simp add: update_conv)
  qed
  have other: "map_of ad g = map_of ad0 g" if "g \<notin> set (f # fs)" for g
  proof -
    from that IH have "map_of ad g = map_of (AList.update f val ad0) g" by auto
    with that show ?thesis by (simp add: update_conv)
  qed
  show ?case using dom f val IH other by auto
qed

lemma attributesDictionary_fields:
  assumes "attributesDictionary eng layer vertexField layerFields key = Inr ad"
  shows "fst ` set ad = set layerFields \<and>
         (\<forall>field\<in>set layerFields. \<exists>rep a.
            quickFilter eng layer (buildExpression vertexField key) = Inr (Some rep) \<and>
            getattr rep field = Inr a \<and>
            (case float_attr a of
               Inr n \<Rightarrow> map_of ad field = Some (Number n)
             | Inl e \<Rightarrow> \<exists>s. str_attr a = Inr s \<and> map_of ad field = Some (Text s)))"
proof -
  from assms obtain fi where fi: "quickFilter eng layer (buildExpression vertexField key) = Inr fi"
    and loop: "efold (\<lambda>field attributesDictionary.
                 ebind (attributeValue fi field)
                   (\<lambda>v. Inr (AList.update field v attributesDictionary))) layerFields [] = Inr ad"
    by (auto simp: attributesDictionary_def Let_def ebind_eq_Inr)
  note L = attribute_loop [OF loop]
  have "\<exists>rep a. quickFilter eng layer (buildExpression vertexField key) = Inr (Some rep) \<and>
            getattr rep field = Inr a \<and>
            (case float_attr a of
               Inr n \<Rightarrow> map_of ad field = Some (Number n)
             | Inl e \<Rightarrow> \<exists>s. str_attr a = Inr s \<and> map_of ad field = Some (Text s))"
    if "field \<in> set layerFields" for field
  proof -
    from L that obtain val where val: "attributeValue fi field = Inr val" "map_of ad field = Some val"
      by blast
    from val(1) obtain rep where rep: "fi = Some rep"
      by (cases fi) (simp_all add: attributeValue_None)
    from val(1) [unfolded rep attributeValue_Some] obtain a where
      a: "getattr rep field = Inr a"
        "case float_attr a of Inr n \<Rightarrow> val = Number n | Inl e \<Rightarrow> \<exists>s. str_attr a = Inr s \<and> val = Text s"
      by blast
    from a(2) val(2) have "case float_attr a of
               Inr n \<Rightarrow> map_of ad field = Some (Number n)
             | Inl e \<Rightarrow> \<exists>s. str_attr a = Inr s \<and> map_of ad field = Some (Text s)"
      by (auto split: sum.splits)
    with fi rep a(1) show ?thesis by blast
  qed
  with L show ?thesis by simp
qed

lemma key_loop:
  assumes "efold (\<lambda>key g.
              ebind (attributesDictionary eng layer vertexField layerFields key)
                (\<lambda>attributesDictionary.
              ebind (getitem g key) (\<lambda>vx.
                Inr (AList.update key (vx\<lparr>attributes := Some attributesDictionary\<rparr>) g)))) ks g0 = Inr g'"
  shows "map fst g' = map fst g0 \<and>
         (\<forall>key\<in>set ks. \<exists>vx ad. map_of g' key = Some vx \<and> attributes vx = Some ad \<and>
             attributesDictionary eng layer vertexField layerFields key = Inr ad) \<and>
         (\<forall>key. key \<notin> set ks \<longrightarrow> map_of g' key = map_of g0 key)"
  using assms
proof (induction ks arbitrary: g0)
  case Nil
  then show ?case by simp
next
  case (Cons k ks)
  from Cons.prems obtain ad vx where ad: "attributesDictionary eng layer vertexField layerFields k = Inr ad"
    and vx: "getitem g0 k = Inr vx"
    and rest: "efold (\<lambda>key g.
              ebind (attributesDictionary eng layer vertexField layerFields key)
                (\<lambda>attributesDictionary.
              ebind (getitem g key) (\<lambda>vx.
                Inr (AList.update key (vx\<lparr>attributes := Some attributesDictionary\<rparr>) g)))) ks
              (AList.update k (vx\<lparr>attributes := Some ad\<rparr>) g0) = Inr g'"
    by (auto simp: ebind_eq_Inr split: sum.splits)
  note IH = Cons.IH [OF rest]
  from vx have kin: "k \<in> fst ` set g0"
    by (auto simp: getitem_def split: option.splits dest: map_of_SomeD intro: rev_image_eqI)
  have keys: "map fst g' = map fst g0"
    using IH kin by (simp add: update_keys)
  have k: "\<exists>vx ad. map_of g' k = Some vx \<and> attributes vx = Some ad \<and>
             attributesDictionary eng layer vertexField layerFields k = Inr ad"
  proof (cases "k \<in> set ks")
    case True
    with IH show ?thesis by blast
  next
    case False
    with IH have "map_of g' k = map_of (AList.update k (vx\<lparr>attributes := Some ad\<rparr>) g0) k" by blast
    then show ?thesis using ad by (simp add: update_conv)
  qed
  have other: "map_of g' j = map_of g0 j" if "j \<notin> set (k # ks)" for j
  proof -
    from that IH have "map_of g' j = map_of (AList.update k (vx\<lparr>attributes := Some ad\<rparr>) g0) j" by auto
    with that show ?thesis by (simp add: update_conv)
  qed
  show ?case using keys k IH other by auto
qed


text \<open>
  Claim C7: when \<open>addAttributesDict\<close> returns, the graph has the keys it had, and every
  vertex has an attribute dictionary whose keys are the field names of the layer; the
  value of a field is the number read by \<open>float\<close> from the representative feature's
  value when \<open>float\<close> succeeds, and the text of that value otherwise. The text \<open>42\<close>
  is read as the number 42, the text \<open>north\<close> is no number and stays text.
\<close>

theorem addAttributesDict_attributes:
  assumes "distinct (map fst graphDictionary)"
    and "addAttributesDict eng layer vertexField layerFields graphDictionary = Inr g'"
  shows "map fst g' = map fst graphDictionary \<and>
    (\<forall>(key, vx) \<in> set g'. \<exists>ad. attributes vx = Some ad \<and> fst ` set ad = set layerFields \<and>
        (\<forall>field \<in> set layerFields. \<exists>rep a.
            quickFilter eng layer (buildExpression vertexField key) = Inr (Some rep) \<and>
            getattr rep field = Inr a \<and>
            (case float_attr a of
               Inr n \<Rightarrow> map_of ad field = Some (Number n)
             | Inl e \<Rightarrow> \<exists>s. str_attr a = Inr s \<and> map_of ad field = Some (Text s)))) \<and>
    float_attr (AStr ''42'') = Inr (Finite 42) \<and>
    float_attr (AStr ''north'') = Inl FloatError \<and> str_attr (AStr ''north'') = Inr ''north''"
proof -
  note K = key_loop [OF assms(2) [unfolded addAttributesDict_def]]
  from K have keys: "map fst g' = map fst graphDictionary" by simp
  have entry: "\<exists>ad. attributes vx = Some ad \<and> fst ` set ad = set layerFields \<and>
        (\<forall>field \<in> set layerFields. \<exists>rep a.
            quickFilter eng layer (buildExpression vertexField key) = Inr (Some rep) \<and>
            getattr rep field = Inr a \<and>
            (case float_attr a of
               Inr n \<Rightarrow> map_of ad field = Some (Number n)
             | Inl e \<Rightarrow> \<exists>s. str_attr a = Inr s \<and> map_of ad field = Some (Text s)))"
    if "(key, vx) \<in> set g'" for key vx
  proof -
    from assms(1) keys have "distinct (map fst g')" by simp
    with that have m: "map_of g' key = Some vx" by simp
    from that have "key \<in> set (map fst g')" by force
    with keys have "key \<in> set (map fst graphDictionary)" by simp
    with K m obtain ad where "attributes vx = Some ad"
      "attributesDictionary eng layer vertexField layerFields key = Inr ad" by fastforce
    with attributesDictionary_fields [OF this(2)] show ?thesis by blast
  qed
  have ex: "float_attr (AStr ''42'') = Inr (Finite 42) \<and>
    float_attr (AStr ''north'') = Inl FloatError \<and> str_attr (AStr ''north'') = Inr ''north''"
    by code_simp
  from keys entry ex show ?thesis by blast
qed

theorem addAttributesDict_attributes_witness:
  "distinct (map fst [(''a'', emptyVertex)]) \<and>
   addAttributesDict key_engine n_layer ''k'' [''k'', ''n'', ''d''] [(''a'', emptyVertex)] =
     Inr [(''a'', \<lparr>edges = [], attributes =
            Some [(''k'', Text ''a''), (''n'', Number (Finite 42)), (''d'', Text ''north'')]\<rparr>)] \<and>
   map fst [(''a'', \<lparr>edges = [], attributes =
            Some [(''k'', Text ''a''), (''n'', Number (Finite 42)), (''d'', Text ''north'')]\<rparr>)] =
     map fst [(''a'', emptyVertex)] \<and>
   float_attr (AStr ''42'') = Inr (Finite 42) \<and>
   float_attr (AStr ''north'') = Inl FloatError \<and> str_attr (AStr ''north'') = Inr ''north''"
proof -
  have h1: "distinct (map fst [(''a'', emptyVertex)])" by simp
  have h2: "addAttributesDict key_engine n_layer ''k'' [''k'', ''n'', ''d''] [(''a'', emptyVertex)] =
     Inr [(''a'', \<lparr>edges = [], attributes =
            Some [(''k'', Text ''a''), (''n'', Number (Finite 42)), (''d'', Text ''north'')]\<rparr>)]"
    by code_simp
  from addAttributesDict_attributes [OF h1 h2] h1 h2 show ?thesis by blast
qed

subsection \<open>The edges recorded by findEdges\<close>

lemma efold_accumulate:
  assumes "efold f as s = Inr t"
    and "\<And>a s t. a \<in> set as \<Longrightarrow> f a s = Inr t \<Longrightarrow> K t = K s \<and> E t = E s \<union> D a"
  shows "K t = K s \<and> E t = E s \<union> (\<Union>a\<in>set as. D a)"
  using assms
proof (induction as arbitrary: s)
  case Nil
  then show ?case by simp
next
  case (Cons a as)
  from Cons.prems(1) obtain u where u: "f a s = Inr u" "efold f as u = Inr t"
    by (auto split: sum.splits)
  from Cons.prems(2) [OF _ u(1)] have 1: "K u = K s" "E u = E s \<union> D a" by simp_all
  have "K t = K u \<and> E t = E u \<union> (\<Union>a\<in>set as. D a)"
    by (rule Cons.IH [OF u(2)], rule Cons.prems(2)) simp_all
  with 1 show ?case by auto
qed

lemma getitem_Inr: "getitem d k = Inr v \<longleftrightarrow> map_of d k = Some v"
  by (simp add: getitem_def split: option.splits)

lemma appendEdge_Inr:
  assumes "appendEdge g k v = Inr g'"
  shows "map fst g' = map fst g \<and> edgeSet g' = edgeSet g \<union> {(k, v)}"
proof -
  from assms obtain vx where vx: "map_of g k = Some vx"
    and g': "g' = AList.update k (vx\<lparr>edges := edges vx @ [v]\<rparr>) g"
    by (auto simp: appendEdge_def ebind_eq_Inr getitem_Inr)
  from vx have "k \<in> fst ` set g" using map_of_SomeD [OF vx] by force
  then have keys: "map fst g' = map fst g" by (simp add: g' update_keys)
  have "hasEdge g' a b \<longleftrightarrow> hasEdge g a b \<or> (a = k \<and> b = v)" for a b
    using vx by (auto simp: hasEdge_def g' update_conv)
  then have "edgeSet g' = edgeSet g \<union> {(k, v)}" by (auto simp: edgeSet_def)
  with keys show ?thesis by simp
qed

lemma updateEdges_Inr:
  assumes "updateEdges g v1 v2 = Inr g'"
  shows "map fst g' = map fst g \<and> edgeSet g' = edgeSet g \<union> {(v1, v2), (v2, v1)}"
proof -
  from assms obtain h where h: "appendEdge g v1 v2 = Inr h" "appendEdge h v2 v1 = Inr g'"
    by (auto simp: updateEdges_def ebind_eq_Inr)
  from appendEdge_Inr [OF h(1)] appendEdge_Inr [OF h(2)] show ?thesis by auto
qed

lemma candidate_inner:
  assumes "(\<lambda>(graphDict, finish).
              ebind (getitem features id2) (\<lambda>feature2.
                if gi (geom feature2) (geom f1)
                then ebind (updateEdges graphDict v1 v2) (\<lambda>graphDict'. Inr (graphDict', True))
                else Inr (graphDict, finish))) s = Inr t"
    and "map_of features id1 = Some f1"
  shows "map fst (fst t) = map fst (fst s) \<and>
         edgeSet (fst t) = edgeSet (fst s) \<union>
           (if hit gi features id1 id2 then {(v1, v2), (v2, v1)} else {})"
proof -
  obtain g fin where s: "s = (g, fin)" by (cases s)
  from assms(1) obtain f2 where f2: "map_of features id2 = Some f2"
    and r: "(if gi (geom f2) (geom f1)
             then ebind (updateEdges g v1 v2) (\<lambda>graphDict'. Inr (graphDict', True))
             else Inr (g, fin)) = Inr t"
    by (auto simp: s ebind_eq_Inr getitem_Inr)
  have h: "hit gi features id1 id2 = gi (geom f2) (geom f1)"
    by (simp add: hit_def assms(2) f2)
  show ?thesis
  proof (cases "gi (geom f2) (geom f1)")
    case True
    with r obtain g' where g': "updateEdges g v1 v2 = Inr g'" "t = (g', True)"
      by (auto simp: ebind_eq_Inr)
    from updateEdges_Inr [OF g'(1)] g'(2) True h s show ?thesis by simp
  next
    case False
    with r h s show ?thesis by auto
  qed
qed

lemma candidate_outer:
  assumes "ebind (getitem features id1) (\<lambda>feature1.
             efold (\<lambda>id2 (graphDict, finish).
                      ebind (getitem features id2) (\<lambda>feature2.
                        if gi (geom feature2) (geom feature1)
                        then ebind (updateEdges graphDict v1 v2)
                               (\<lambda>graphDict'. Inr (graphDict', True))
                        else Inr (graphDict, finish)))
               ids2 s) = Inr t"
  shows "map fst (fst t) = map fst (fst s) \<and>
         edgeSet (fst t) = edgeSet (fst s) \<union>
           (\<Union>id2\<in>set ids2. if hit gi features id1 id2 then {(v1, v2), (v2, v1)} else {})"
proof -
  from assms obtain f1 where f1: "map_of features id1 = Some f1"
    and e: "efold (\<lambda>id2 (graphDict, finish).
                      ebind (getitem features id2) (\<lambda>feature2.
                        if gi (geom feature2) (geom f1)
                        then ebind (updateEdges graphDict v1 v2)
                               (\<lambda>graphDict'. Inr (graphDict', True))
                        else Inr (graphDict, finish)))
               ids2 s = Inr t"
    by (auto simp: ebind_eq_Inr getitem_Inr)
  show ?thesis
  proof (rule efold_accumulate [OF e, where K = "\<lambda>s. map fst (fst s)" and E = "\<lambda>s. edgeSet (fst s)"])
    fix id2 s' t'
    assume "(\<lambda>(graphDict, finish).
              ebind (getitem features id2) (\<lambda>feature2.
                if gi (geom feature2) (geom f1)
                then ebind (updateEdges graphDict v1 v2) (\<lambda>graphDict'. Inr (graphDict', True))
                else Inr (graphDict, finish))) s' = Inr t'"
    from candidate_inner [where s = s' and t = t' and features = features and gi = gi and ?id2.0 = id2
        and ?f1.0 = f1 and ?v1.0 = v1 and ?v2.0 = v2 and ?id1.0 = id1, OF this f1]
    show "map fst (fst t') = map fst (fst s') \<and>
          edgeSet (fst t') = edgeSet (fst s') \<union>
            (if hit gi features id1 id2 then {(v1, v2), (v2, v1)} else {})" .
  qed
qed

lemma candidatePairs_Inr:
  assumes "candidatePairs gi features v1 v2 ids1 ids2 (g, fin) = Inr (g', fin')"
  shows "map fst g' = map fst g \<and>
         edgeSet g' = edgeSet g \<union>
           (if \<exists>id1\<in>set ids1. \<exists>id2\<in>set ids2. hit gi features id1 id2 then {(v1, v2), (v2, v1)} else {})"
proof -
  have "map fst (fst (g', fin')) = map fst (fst (g, fin)) \<and>
      edgeSet (fst (g', fin')) = edgeSet (fst (g, fin)) \<union>
        (\<Union>id1\<in>set ids1. \<Union>id2\<in>set ids2. if hit gi features id1 id2 then {(v1, v2), (v2, v1)} else {})"
  proof (rule efold_accumulate [OF assms [unfolded candidatePairs_def],
          where K = "\<lambda>s. map fst (fst s)" and E = "\<lambda>s. edgeSet (fst s)"])
    fix id1 s t
    assume "ebind (getitem features id1) (\<lambda>feature1.
             efold (\<lambda>id2 (graphDict, finish).
                      ebind (getitem features id2) (\<lambda>feature2.
                        if gi (geom feature2) (geom feature1)
                        then ebind (updateEdges graphDict v1 v2)
                               (\<lambda>graphDict'. Inr (graphDict', True))
                        else Inr (graphDict, finish)))
               ids2 s) = Inr t"
    from candidate_outer [where s = s and t = t and features = features and gi = gi and ?ids2.0 = ids2
        and ?v1.0 = v1 and ?v2.0 = v2 and ?id1.0 = id1, OF this]
    show "map fst (fst t) = map fst (fst s) \<and>
         edgeSet (fst t) = edgeSet (fst s) \<union>
           (\<Union>id2\<in>set ids2. if hit gi features id1 id2 then {(v1, v2), (v2, v1)} else {})" .
  qed
  then have k: "map fst g' = map fst g"
    and e: "edgeSet g' = edgeSet g \<union>
        (\<Union>id1\<in>set ids1. \<Union>id2\<in>set ids2. if hit gi features id1 id2 then {(v1, v2), (v2, v1)} else {})"
    by simp_all
  have "(\<Union>id1\<in>set ids1. \<Union>id2\<in>set ids2. if hit gi features id1 id2 then {(v1, v2), (v2, v1)} else {}) =
       (if \<exists>id1\<in>set ids1. \<exists>id2\<in>set ids2. hit gi features id1 id2 then {(v1, v2), (v2, v1)} else {})"
    by (auto split: if_splits)
  with k e show ?thesis by simp
qed

declare whileFinish.simps [simp del]

lemma whileFinish_True: "whileFinish gi features v1 v2 ids1 ids2 (g, True) = Inr g"
  by (subst whileFinish.simps) simp

lemma whileFinish_False:
  "whileFinish gi features v1 v2 ids1 ids2 (g, False) =
     (case candidatePairs gi features v1 v2 ids1 ids2 (g, False) of
        Inl e \<Rightarrow> Inl e
      | Inr (g', fin') \<Rightarrow> Inr g')"
  by (subst whileFinish.simps) (simp add: whileFinish_True split: sum.splits)

lemma groupPair_Inr:
  assumes "groupPair gi bd features v1 bnds index1 v2 g = Inr g'"
  shows "map fst g' = map fst g \<and>
         edgeSet g' = edgeSet g \<union> pairEdges gi bd features v1 bnds index1 v2"
proof -
  from assms obtain tb index2 where e: "map_of bd v2 = Some (tb, index2)"
    and r: "(let rectangle1 = QgsRectangle (bxMin bnds) (byMin bnds) (bxMax bnds) (byMax bnds);
           rectangle2 = QgsRectangle (bxMin tb) (byMin tb) (bxMax tb) (byMax tb)
       in if rect_intersects rectangle1 rectangle2
          then (let rectangle3 = smallRectangle bnds tb;
                    ids1 = index_intersects index1 rectangle3;
                    ids2 = index_intersects index2 rectangle3
                in whileFinish gi features v1 v2 ids1 ids2 (g, False))
          else Inr g) = Inr g'"
    by (auto simp: groupPair_def ebind_eq_Inr getitem_Inr)
  show ?thesis
  proof (cases "rect_intersects (QgsRectangle (bxMin bnds) (byMin bnds) (bxMax bnds) (byMax bnds))
                  (QgsRectangle (bxMin tb) (byMin tb) (bxMax tb) (byMax tb))")
    case False
    with r e show ?thesis by (simp add: pairEdges_def)
  next
    case True
    with r obtain fin' where
      c: "candidatePairs gi features v1 v2 (index_intersects index1 (smallRectangle bnds tb))
            (index_intersects index2 (smallRectangle bnds tb)) (g, False) = Inr (g', fin')"
      by (auto simp: Let_def whileFinish_False split: sum.splits)
    from candidatePairs_Inr [OF c] True e show ?thesis
      by (simp add: pairEdges_def list_ex_iff)
  qed
qed

lemma groupRow_Inr:
  assumes "groupRow gi vs bd features v1 s = Inr t"
  shows "map fst (snd t) = map fst (snd s) \<and>
         edgeSet (snd t) = edgeSet (snd s) \<union> rowEdges gi vs bd features v1"
proof -
  obtain vs2 g where s: "s = (vs2, g)" by (cases s)
  from assms obtain vs2' bnds index1 g' where b: "map_of bd v1 = Some (bnds, index1)"
    and e: "efold (groupPair gi bd features v1 bnds index1) vs g = Inr g'"
    and t: "t = (vs2', g')"
    by (auto simp: groupRow_def s ebind_eq_Inr getitem_Inr)
  have "map fst g' = map fst g \<and>
        edgeSet g' = edgeSet g \<union> (\<Union>v2\<in>set vs. pairEdges gi bd features v1 bnds index1 v2)"
    by (rule efold_accumulate [OF e, where K = "map fst" and E = edgeSet])
       (rule groupPair_Inr)
  with b s t show ?thesis by (simp add: rowEdges_def)
qed

lemma findEdges_Inr:
  assumes "findEdges gi vs bd g features = Inr g'"
  shows "map fst g' = map fst g \<and>
         edgeSet g' = edgeSet g \<union> (\<Union>v1\<in>set vs. rowEdges gi vs bd features v1)"
proof -
  from assms obtain vs2 where
    e: "efold (groupRow gi vs bd features) vs (vs, g) = Inr (vs2, g')"
    by (auto simp: findEdges_def ebind_eq_Inr)
  have "map fst (snd (vs2, g')) = map fst (snd (vs, g)) \<and>
        edgeSet (snd (vs2, g')) = edgeSet (snd (vs, g)) \<union> (\<Union>v1\<in>set vs. rowEdges gi vs bd features v1)"
    by (rule efold_accumulate [OF e, where K = "\<lambda>s. map fst (snd s)" and E = "\<lambda>s. edgeSet (snd s)"])
       (rule groupRow_Inr)
  then show ?thesis by simp
qed

lemma index_intersects_subset: "set (index_intersects idx r) \<subseteq> fst ` set idx"
  by (auto simp: index_intersects_def)

lemma pairEdges_cases:
  assumes "(a, b) \<in> pairEdges gi bd features v1 bnds index1 v2"
  shows "\<exists>tb index2. map_of bd v2 = Some (tb, index2) \<and>
           ((a = v1 \<and> b = v2) \<or> (a = v2 \<and> b = v1)) \<and>
           (\<exists>id1\<in>fst ` set index1. \<exists>id2\<in>fst ` set index2. hit gi features id1 id2)"
proof -
  from assms obtain tb index2 where m: "map_of bd v2 = Some (tb, index2)"
    and c: "list_ex (\<lambda>id1. list_ex (hit gi features id1)
                              (index_intersects index2 (smallRectangle bnds tb)))
               (index_intersects index1 (smallRectangle bnds tb))"
    and ab: "(a = v1 \<and> b = v2) \<or> (a = v2 \<and> b = v1)"
    by (auto simp: pairEdges_def split: option.splits if_splits)
  from c obtain id1 id2 where i: "id1 \<in> set (index_intersects index1 (smallRectangle bnds tb))"
    "id2 \<in> set (index_intersects index2 (smallRectangle bnds tb))" "hit gi features id1 id2"
    by (auto simp: list_ex_iff)
  from i(1,2) index_intersects_subset have "id1 \<in> fst ` set index1" "id2 \<in> fst ` set index2"
    by blast+
  with m ab i(3) show ?thesis by blast
qed


text \<open>
  Claim C4: take two group keys such that no geometry in the index of the one intersects
  a geometry in the index of the other (in either order of the test), and a graph without
  an entry of the one key in the edge list of the other. When \<open>findEdges\<close> returns, there
  still is no such entry: neither the test of the bounding boxes nor the retrieval of
  candidates records an edge.
\<close>

theorem findEdges_disjoint_groups:
  assumes "findEdges gi valueSet boundsIndexDict graphDict features = Inr g'"
    and "getitem boundsIndexDict g1 = Inr (bounds1, index1)"
    and "getitem boundsIndexDict g2 = Inr (bounds2, index2)"
    and "\<forall>id1\<in>fst ` set index1. \<forall>id2\<in>fst ` set index2. \<forall>f1 f2.
           map_of features id1 = Some f1 \<and> map_of features id2 = Some f2 \<longrightarrow>
           \<not> gi (geom f1) (geom f2) \<and> \<not> gi (geom f2) (geom f1)"
    and "\<not> hasEdge graphDict g1 g2" and "\<not> hasEdge graphDict g2 g1"
  shows "\<not> hasEdge g' g1 g2 \<and> \<not> hasEdge g' g2 g1"
proof -
  have nohit: "\<not> hit gi features id1 id2 \<and> \<not> hit gi features id2 id1"
    if "id1 \<in> fst ` set index1" "id2 \<in> fst ` set index2" for id1 id2
    using assms(4) that by (fastforce simp: hit_def split: option.splits)
  have no: "(a, b) \<notin> rowEdges gi valueSet boundsIndexDict features v1"
    if ab: "(a = g1 \<and> b = g2) \<or> (a = g2 \<and> b = g1)" for a b v1
  proof
    assume "(a, b) \<in> rowEdges gi valueSet boundsIndexDict features v1"
    then obtain bnds idx1 v2 where r: "map_of boundsIndexDict v1 = Some (bnds, idx1)"
      and p: "(a, b) \<in> pairEdges gi boundsIndexDict features v1 bnds idx1 v2"
      by (auto simp: rowEdges_def split: option.splits)
    from pairEdges_cases [OF p] obtain tb idx2 i1 i2 where
      q: "map_of boundsIndexDict v2 = Some (tb, idx2)"
        "(a = v1 \<and> b = v2) \<or> (a = v2 \<and> b = v1)"
        "i1 \<in> fst ` set idx1" "i2 \<in> fst ` set idx2" "hit gi features i1 i2"
      by blast
    from assms(2,3) have m: "map_of boundsIndexDict g1 = Some (bounds1, index1)"
      "map_of boundsIndexDict g2 = Some (bounds2, index2)"
      by (simp_all add: getitem_Inr)
    from ab q(2) have "(v1 = g1 \<and> v2 = g2) \<or> (v1 = g2 \<and> v2 = g1)" by auto
    then show False
    proof
      assume "v1 = g1 \<and> v2 = g2"
      with r q(1) m have "idx1 = index1" "idx2 = index2" by simp_all
      with nohit q(3,4,5) show False by blast
    next
      assume "v1 = g2 \<and> v2 = g1"
      with r q(1) m have "idx1 = index2" "idx2 = index1" by simp_all
      with nohit q(3,4,5) show False by blast
    qed
  qed
  from findEdges_Inr [OF assms(1)]
  have e: "edgeSet g' = edgeSet graphDict \<union> (\<Union>v1\<in>set valueSet. rowEdges gi valueSet boundsIndexDict features v1)"
    by simp
  from assms(5,6) have "(g1, g2) \<notin> edgeSet graphDict" "(g2, g1) \<notin> edgeSet graphDict"
    by (simp_all add: edgeSet_def)
  with e no have "(g1, g2) \<notin> edgeSet g'" "(g2, g1) \<notin> edgeSet g'" by auto
  then show ?thesis by (simp add: edgeSet_def)
qed

theorem findEdges_disjoint_groups_witness:
  "processParameters abc_layer ''k'' =
     Inr (abc_features, [''a'', ''b'', ''c''], abc_graph, [''k'']) \<and>
   boundsAndIndexDict key_engine abc_layer [''a'', ''b'', ''c''] ''k'' = Inr abc_groups \<and>
   findEdges boxes_intersect [''a'', ''b'', ''c''] abc_groups abc_graph abc_features =
     Inr [(''a'', \<lparr>edges = [''a'', ''a'', ''b'', ''b''], attributes = None\<rparr>),
          (''b'', \<lparr>edges = [''a'', ''a'', ''b'', ''b''], attributes = None\<rparr>),
          (''c'', \<lparr>edges = [''c'', ''c''], attributes = None\<rparr>)] \<and>
   \<not> boxes_intersect (geom feature_a) (geom feature_c) \<and>
   \<not> boxes_intersect (geom feature_c) (geom feature_a) \<and>
   \<not> hasEdge [(''a'', \<lparr>edges = [''a'', ''a'', ''b'', ''b''], attributes = None\<rparr>),
          (''b'', \<lparr>edges = [''a'', ''a'', ''b'', ''b''], attributes = None\<rparr>),
          (''c'', \<lparr>edges = [''c'', ''c''], attributes = None\<rparr>)] ''a'' ''c'' \<and>
   \<not> hasEdge [(''a'', \<lparr>edges = [''a'', ''a'', ''b'', ''b''], attributes = None\<rparr>),
          (''b'', \<lparr>edges = [''a'', ''a'', ''b'', ''b''], attributes = None\<rparr>),
          (''c'', \<lparr>edges = [''c'', ''c''], attributes = None\<rparr>)] ''c'' ''a''"
proof -
  have h1: "findEdges boxes_intersect [''a'', ''b'', ''c''] abc_groups abc_graph abc_features =
     Inr [(''a'', \<lparr>edges = [''a'', ''a'', ''b'', ''b''], attributes = None\<rparr>),
          (''b'', \<lparr>edges = [''a'', ''a'', ''b'', ''b''], attributes = None\<rparr>),
          (''c'', \<lparr>edges = [''c'', ''c''], attributes = None\<rparr>)]"
    by code_simp
  have h2: "getitem abc_groups ''a'' = Inr ((1, 1, 1, 1), [(1, (0, 0, 1, 1))])" by code_simp
  have h3: "getitem abc_groups ''c'' = Inr ((5, 5, 5, 5), [(3, (5, 5, 6, 6))])" by code_simp
  have d: "\<not> boxes_intersect (geom feature_a) (geom feature_c) \<and>
           \<not> boxes_intersect (geom feature_c) (geom feature_a)" by code_simp
  have h4: "\<forall>id1\<in>fst ` set [(1::int, (0::real, 0::real, 1::real, 1::real))].
            \<forall>id2\<in>fst ` set [(3::int, (5::real, 5::real, 6::real, 6::real))]. \<forall>f1 f2.
           map_of abc_features id1 = Some f1 \<and> map_of abc_features id2 = Some f2 \<longrightarrow>
           \<not> boxes_intersect (geom f1) (geom f2) \<and> \<not> boxes_intersect (geom f2) (geom f1)"
    using d by (simp add: abc_features_def)
  have h5: "\<not> hasEdge abc_graph ''a'' ''c''" by code_simp
  have h6: "\<not> hasEdge abc_graph ''c'' ''a''" by code_simp
  have p: "processParameters abc_layer ''k'' =
     Inr (abc_features, [''a'', ''b'', ''c''], abc_graph, [''k''])" by code_simp
  have b: "boundsAndIndexDict key_engine abc_layer [''a'', ''b'', ''c''] ''k'' = Inr abc_groups"
    by code_simp
  from findEdges_disjoint_groups [OF h1 h2 h3 h4 h5 h6] h1 d p b show ?thesis by blast
qed

subsection \<open>When findEdges returns\<close>

lemma efold_succeeds:
  assumes "I s" and "\<And>a s. a \<in> set as \<Longrightarrow> I s \<Longrightarrow> \<exists>t. f a s = Inr t \<and> I t"
  shows "\<exists>t. efold f as s = Inr t \<and> I t"
  using assms
proof (induction as arbitrary: s)
  case Nil
  then show ?case by simp
next
  case (Cons a as)
  from Cons.prems(2) [of a s] Cons.prems(1) obtain u where u: "f a s = Inr u" "I u" by auto
  have "\<exists>t. efold f as u = Inr t \<and> I t"
    by (rule Cons.IH [OF u(2)]) (simp add: Cons.prems(2))
  with u(1) show ?case by simp
qed

lemma map_of_key: "k \<in> fst ` set d \<Longrightarrow> \<exists>v. map_of d k = Some v"
  by (cases "map_of d k") (simp_all add: map_of_eq_None_iff)

lemma appendEdge_succeeds:
  assumes "k \<in> fst ` set g"
  shows "\<exists>g'. appendEdge g k v = Inr g'"
  using map_of_key [OF assms] by (auto simp: appendEdge_def getitem_def)

lemma updateEdges_succeeds:
  assumes "v1 \<in> fst ` set g" and "v2 \<in> fst ` set g"
  shows "\<exists>g'. updateEdges g v1 v2 = Inr g'"
proof -
  from appendEdge_succeeds [OF assms(1)] obtain h where h: "appendEdge g v1 v2 = Inr h" by blast
  from appendEdge_Inr [OF h] have "map fst h = map fst g" by simp
  then have "fst ` set h = fst ` set g" by (metis set_map)
  with assms(2) appendEdge_succeeds [of v2 h v1] obtain g' where "appendEdge h v2 v1 = Inr g'"
    by auto
  with h show ?thesis by (simp add: updateEdges_def)
qed

lemma candidatePairs_succeeds:
  assumes "set ids1 \<subseteq> fst ` set features" and "set ids2 \<subseteq> fst ` set features"
    and "v1 \<in> fst ` set g" and "v2 \<in> fst ` set g"
  shows "\<exists>t. candidatePairs gi features v1 v2 ids1 ids2 (g, fin) = Inr t"
proof -
  let ?I = "\<lambda>s :: graph \<times> bool. fst ` set (fst s) = fst ` set g"
  have inner: "\<exists>t. (\<lambda>(graphDict, finish).
              ebind (getitem features id2) (\<lambda>feature2.
                if gi (geom feature2) (geom f1)
                then ebind (updateEdges graphDict v1 v2) (\<lambda>graphDict'. Inr (graphDict', True))
                else Inr (graphDict, finish))) s = Inr t \<and> ?I t"
    if "id2 \<in> set ids2" "?I s" for id2 f1 s
  proof -
    obtain h fin' where s: "s = (h, fin')" by (cases s)
    from that(1) assms(2) map_of_key [of id2 features] obtain f2 where
      f2: "getitem features id2 = Inr f2" by (auto simp: getitem_Inr)
    show ?thesis
    proof (cases "gi (geom f2) (geom f1)")
      case True
      from that(2) s assms(3,4) have "v1 \<in> fst ` set h" "v2 \<in> fst ` set h" by simp_all
      from updateEdges_succeeds [OF this] obtain h' where h': "updateEdges h v1 v2 = Inr h'"
        by blast
      from updateEdges_Inr [OF h'] have "map fst h' = map fst h" by simp
      then have "fst ` set h' = fst ` set h" by (metis set_map)
      with that(2) s h' f2 True show ?thesis by simp
    next
      case False
      with that(2) s f2 show ?thesis by simp
    qed
  qed
  have outer: "\<exists>t. ebind (getitem features id1) (\<lambda>feature1.
             efold (\<lambda>id2 (graphDict, finish).
                      ebind (getitem features id2) (\<lambda>feature2.
                        if gi (geom feature2) (geom feature1)
                        then ebind (updateEdges graphDict v1 v2)
                               (\<lambda>graphDict'. Inr (graphDict', True))
                        else Inr (graphDict, finish)))
               ids2 s) = Inr t \<and> ?I t"
    if "id1 \<in> set ids1" "?I s" for id1 s
  proof -
    from that(1) assms(1) map_of_key [of id1 features] obtain f1 where
      f1: "getitem features id1 = Inr f1" by (auto simp: getitem_Inr)
    have "\<exists>t. efold (\<lambda>id2 (graphDict, finish).
                      ebind (getitem features id2) (\<lambda>feature2.
                        if gi (geom feature2) (geom f1)
                        then ebind (updateEdges graphDict v1 v2)
                               (\<lambda>graphDict'. Inr (graphDict', True))
                        else Inr (graphDict, finish)))
               ids2 s = Inr t \<and> ?I t"
      by (rule efold_succeeds [where I = ?I, OF that(2)]) (rule inner)
    with f1 show ?thesis by simp
  qed
  have "\<exists>t. candidatePairs gi features v1 v2 ids1 ids2 (g, fin) = Inr t \<and> ?I t"
    unfolding candidatePairs_def
    by (rule efold_succeeds [where I = ?I]) (simp, rule outer)
  then show ?thesis by blast
qed

lemma groupPair_succeeds:
  assumes "map_of bd v2 = Some (tb, index2)"
    and "fst ` set index1 \<subseteq> fst ` set features" and "fst ` set index2 \<subseteq> fst ` set features"
    and "v1 \<in> fst ` set g" and "v2 \<in> fst ` set g"
  shows "\<exists>g'. groupPair gi bd features v1 bnds index1 v2 g = Inr g'"
proof -
  have 1: "set (index_intersects index1 r) \<subseteq> fst ` set features" for r
    using index_intersects_subset [of index1 r] assms(2) by blast
  have 2: "set (index_intersects index2 r) \<subseteq> fst ` set features" for r
    using index_intersects_subset [of index2 r] assms(3) by blast
  have "\<exists>g'. whileFinish gi features v1 v2 (index_intersects index1 r)
          (index_intersects index2 r) (g, False) = Inr g'" for r
  proof -
    from candidatePairs_succeeds [OF 1 2 assms(4,5)] obtain t where
      "candidatePairs gi features v1 v2 (index_intersects index1 r)
         (index_intersects index2 r) (g, False) = Inr t" by blast
    then show ?thesis by (cases t) (simp add: whileFinish_False)
  qed
  then show ?thesis
    using assms(1) by (simp add: groupPair_def getitem_def Let_def)
qed


text \<open>
  What \<open>findEdges\<close> needs in order to return: every value has an entry in
  \<open>boundsIndexDict\<close> whose index holds ids of \<open>features\<close> only.
\<close>

lemma groupRow_succeeds:
  assumes "\<forall>v\<in>set vs. \<exists>b idx. map_of bd v = Some (b, idx) \<and> fst ` set idx \<subseteq> fst ` set features"
    and "set vs \<subseteq> fst ` set g" and "v1 \<in> set vs" and "v1 \<in> set vs2"
  shows "\<exists>g'. groupRow gi vs bd features v1 (vs2, g) = Inr (removeAll v1 vs2, g')"
proof -
  from assms(1,3) obtain bnds index1 where b: "map_of bd v1 = Some (bnds, index1)"
    and i1: "fst ` set index1 \<subseteq> fst ` set features" by blast
  let ?I = "\<lambda>h :: graph. fst ` set h = fst ` set g"
  have step: "\<exists>h'. groupPair gi bd features v1 bnds index1 v2 h = Inr h' \<and> ?I h'"
    if "v2 \<in> set vs" "?I h" for v2 h
  proof -
    from assms(1) that(1) obtain tb index2 where t: "map_of bd v2 = Some (tb, index2)"
      and i2: "fst ` set index2 \<subseteq> fst ` set features" by blast
    from assms(2,3) that have "v1 \<in> fst ` set h" "v2 \<in> fst ` set h" by auto
    from groupPair_succeeds [OF t i1 i2 this] obtain h' where
      h': "groupPair gi bd features v1 bnds index1 v2 h = Inr h'" by blast
    from groupPair_Inr [OF h'] have "map fst h' = map fst h" by simp
    then have "fst ` set h' = fst ` set h" by (metis set_map)
    with h' that(2) show ?thesis by simp
  qed
  have "\<exists>g'. efold (groupPair gi bd features v1 bnds index1) vs g = Inr g' \<and> ?I g'"
    by (rule efold_succeeds [where I = ?I]) (simp, rule step)
  then show ?thesis
    using b assms(4) by (auto simp: groupRow_def set_remove_def getitem_def)
qed

lemma groupRows_succeed:
  assumes "\<forall>v\<in>set vs. \<exists>b idx. map_of bd v = Some (b, idx) \<and> fst ` set idx \<subseteq> fst ` set features"
    and "set vs \<subseteq> fst ` set g" and "set as \<subseteq> set vs" and "set as \<subseteq> set vs2" and "distinct as"
  shows "\<exists>t. efold (groupRow gi vs bd features) as (vs2, g) = Inr t"
  using assms(2-)
proof (induction as arbitrary: vs2 g)
  case Nil
  then show ?case by simp
next
  case (Cons a as)
  from Cons.prems have a: "a \<in> set vs" "a \<in> set vs2" by simp_all
  from groupRow_succeeds [OF assms(1) Cons.prems(1) a] obtain g' where
    g': "groupRow gi vs bd features a (vs2, g) = Inr (removeAll a vs2, g')" by blast
  from groupRow_Inr [OF g'] have "map fst g' = map fst g" by simp
  then have "fst ` set g' = fst ` set g" by (metis set_map)
  with Cons.prems have 1: "set vs \<subseteq> fst ` set g'" by simp
  from Cons.prems have 2: "set as \<subseteq> set vs" "set as \<subseteq> set (removeAll a vs2)" "distinct as"
    by auto
  from Cons.IH [OF 1 2] g' show ?case by simp
qed

lemma findEdges_succeeds:
  assumes "\<forall>v\<in>set vs. \<exists>b idx. map_of bd v = Some (b, idx) \<and> fst ` set idx \<subseteq> fst ` set features"
    and "set vs \<subseteq> fst ` set g" and "distinct vs"
  shows "\<exists>g'. findEdges gi vs bd g features = Inr g'"
proof -
  from groupRows_succeed [OF assms(1,2) subset_refl subset_refl assms(3)] obtain t where
    "efold (groupRow gi vs bd features) vs (vs, g) = Inr t" by blast
  then show ?thesis by (cases t) (simp add: findEdges_def)
qed

subsection \<open>Bounds and bounding boxes\<close>

lemma fold_min_Min: "fold min xs (a::real) = Min (set (a # xs))"
  by (rule Min.set_eq_fold [symmetric])

lemma fold_max_Max: "fold max xs (a::real) = Max (set (a # xs))"
  by (rule Max.set_eq_fold [symmetric])

lemma pymin_Inr:
  assumes "pymin xs = Inr m"
  shows "m \<in> set xs \<and> (\<forall>x\<in>set xs. m \<le> x)"
proof -
  from assms obtain a as where xs: "xs = a # as" and m: "m = Min (set (a # as))"
    by (auto simp: pymin_def fold_min_Min split: list.splits)
  have "Min (set (a # as)) \<in> set (a # as)" by (rule Min_in) simp_all
  moreover have "\<forall>x\<in>set (a # as). Min (set (a # as)) \<le> x" by simp
  ultimately show ?thesis using xs m by simp
qed

lemma pymax_Inr:
  assumes "pymax xs = Inr m"
  shows "m \<in> set xs \<and> (\<forall>x\<in>set xs. x \<le> m)"
proof -
  from assms obtain a as where xs: "xs = a # as" and m: "m = Max (set (a # as))"
    by (auto simp: pymax_def fold_max_Max split: list.splits)
  have "Max (set (a # as)) \<in> set (a # as)" by (rule Max_in) simp_all
  moreover have "\<forall>x\<in>set (a # as). x \<le> Max (set (a # as))" by simp
  ultimately show ?thesis using xs m by simp
qed

lemma index_py_Inr: "index_py xs i = Inr x \<Longrightarrow> x \<in> set xs"
  by (auto simp: index_py_def split: if_splits)

lemma vertices_asPolygon: "ring \<in> set (asPolygon g) \<Longrightarrow> set ring \<subseteq> set (vertices g)"
  by (cases g) auto

text \<open>Every bound that \<open>rectBounds\<close> returns is a coordinate of a vertex of the geometry.\<close>

lemma rectBounds_attained:
  assumes "rectBounds g = Inr rb"
  shows "bxMin rb \<in> fst ` set (vertices g) \<and> byMin rb \<in> snd ` set (vertices g) \<and>
         bxMax rb \<in> fst ` set (vertices g) \<and> byMax rb \<in> snd ` set (vertices g)"
proof -
  let ?step = "\<lambda>i (x, y).
                ebind (index_py (asPolygon g) 0) (\<lambda>ring.
                ebind (index_py ring i) (\<lambda>p. Inr (x @ [fst p], y @ [snd p])))"
  let ?I = "\<lambda>s :: real list \<times> real list.
              set (fst s) \<subseteq> fst ` set (vertices g) \<and> set (snd s) \<subseteq> snd ` set (vertices g)"
  from assms obtain x y x0 y0 x1 y1 where
    loop: "efold ?step [0..<length (asPolygon g)] ([], []) = Inr (x, y)"
    and m: "pymin x = Inr x0" "pymin y = Inr y0" "pymax x = Inr x1" "pymax y = Inr y1"
    and rb: "rb = (x0, y0, x1, y1)"
    by (auto simp: rectBounds_def Let_def ebind_eq_Inr)
  have "?I (x, y)"
  proof (rule efold_invariant [OF loop, where I = ?I])
    show "?I ([], [])" by simp
  next
    fix i s t
    assume I: "?I s" and st: "?step i s = Inr t"
    obtain xs ys where s: "s = (xs, ys)" by (cases s)
    from st s obtain ring p where r: "index_py (asPolygon g) 0 = Inr ring"
      and p: "index_py ring i = Inr p" and t: "t = (xs @ [fst p], ys @ [snd p])"
      by (auto simp: ebind_eq_Inr)
    from index_py_Inr [OF r] vertices_asPolygon index_py_Inr [OF p]
    have "p \<in> set (vertices g)" by blast
    with I s t show "?I t" by auto
  qed
  with pymin_Inr [OF m(1)] pymin_Inr [OF m(2)] pymax_Inr [OF m(3)] pymax_Inr [OF m(4)] rb
  show ?thesis by (auto simp: bounds_defs)
qed

lemma boundingBox_Some:
  assumes "p \<in> set (vertices g)"
  shows "\<exists>bb. boundingBox g = Some bb \<and> bxMin bb \<le> fst p \<and> fst p \<le> bxMax bb \<and>
           byMin bb \<le> snd p \<and> snd p \<le> byMax bb"
proof -
  from assms obtain q qs where v: "vertices g = q # qs" by (cases "vertices g") auto
  have fx: "fst p \<in> set (fst q # map fst qs)" and fy: "snd p \<in> set (snd q # map snd qs)"
    using assms v by auto
  have "Min (set (fst q # map fst qs)) \<le> fst p" "fst p \<le> Max (set (fst q # map fst qs))"
    "Min (set (snd q # map snd qs)) \<le> snd p" "snd p \<le> Max (set (snd q # map snd qs))"
    using fx fy by (simp_all only: Min_le Max_ge List.finite_set)
  then show ?thesis
    by (simp add: boundingBox_def v fold_min_Min fold_max_Max bounds_defs)
qed

text \<open>The bounding box of a geometry meets, on each axis, the bounds of \<open>rectBounds\<close>.\<close>

lemma rectBounds_boundingBox:
  assumes "rectBounds g = Inr rb"
  shows "\<exists>bb. boundingBox g = Some bb \<and> bxMin bb \<le> bxMin rb \<and> bxMin rb \<le> bxMax bb \<and>
           byMin bb \<le> byMin rb \<and> byMin rb \<le> byMax bb"
proof -
  from rectBounds_attained [OF assms] obtain p q where
    p: "p \<in> set (vertices g)" "bxMin rb = fst p" and q: "q \<in> set (vertices g)" "byMin rb = snd q"
    by auto
  from boundingBox_Some [OF p(1)] obtain bb where
    bb: "boundingBox g = Some bb" "bxMin bb \<le> fst p" "fst p \<le> bxMax bb" by blast
  from boundingBox_Some [OF q(1)] bb(1) have "byMin bb \<le> snd q" "snd q \<le> byMax bb" by auto
  with bb p(2) q(2) show ?thesis by simp
qed

subsection \<open>The groups that boundsAndIndexDict builds\<close>

lemma filter_py_invariant:
  assumes "filter_py eng layer expr body s = Inr t" and "I s"
    and "\<And>f s t. f \<in> set (getFeatures layer) \<Longrightarrow> I s \<Longrightarrow> body f s = Inr t \<Longrightarrow> I t"
  shows "I t"
proof -
  from assms(1) have e: "efold (\<lambda>feature s.
                    case evaluate eng expr feature of
                      None \<Rightarrow> Inl EvalError
                    | Some v \<Rightarrow> if v then body feature s else Inr s)
             (getFeatures layer) s = Inr t"
    by (simp add: filter_py_def split: if_splits)
  show ?thesis
  proof (rule efold_invariant [where I = I, OF e assms(2)])
    fix f s t
    assume "f \<in> set (getFeatures layer)" "I s"
      "(case evaluate eng expr f of None \<Rightarrow> Inl EvalError
        | Some v \<Rightarrow> if v then body f s else Inr s) = Inr t"
    with assms(3) [of f s t] show "I t"
      by (auto split: option.splits if_splits)
  qed
qed

lemma boundsAndIndex_Inr:
  assumes "boundsAndIndex eng layer field v = Inr (bnds, idx)"
  shows "bxMin bnds \<le> bxMax bnds \<and> byMin bnds \<le> byMax bnds \<and> idx \<noteq> [] \<and>
         (\<forall>(i, bb)\<in>set idx. i \<in> fid ` set (getFeatures layer) \<and> rect_intersects bb bnds)"
proof -
  let ?body = "\<lambda>feature (spatialIndex, x, y).
                  let g = geom feature;
                      spatialIndex' = insertFeature spatialIndex feature
                  in ebind (rectBounds g) (\<lambda>featureBounds.
                       Inr (spatialIndex',
                            x @ [bxMin featureBounds, bxMax featureBounds],
                            y @ [byMin featureBounds, byMax featureBounds]))"
  define Inv where "Inv = (\<lambda>s :: spatialIndex \<times> real list \<times> real list.
     (\<forall>(i, bb)\<in>set (fst s). i \<in> fid ` set (getFeatures layer) \<and>
        (\<exists>px\<in>set (fst (snd s)). bxMin bb \<le> px \<and> px \<le> bxMax bb) \<and>
        (\<exists>py\<in>set (snd (snd s)). byMin bb \<le> py \<and> py \<le> byMax bb)) \<and>
     (fst (snd s) \<noteq> [] \<longrightarrow> fst s \<noteq> []))"
  from assms obtain x y x0 y0 x1 y1 where
    f: "filter_py eng layer (buildExpression field v) ?body ([], [], []) = Inr (idx, x, y)"
    and m: "pymin x = Inr x0" "pymin y = Inr y0" "pymax x = Inr x1" "pymax y = Inr y1"
    and b: "bnds = (x0, y0, x1, y1)"
    by (auto simp: boundsAndIndex_def Let_def ebind_eq_Inr)
  have "Inv (idx, x, y)"
  proof (rule filter_py_invariant [OF f, where I = Inv])
    show "Inv ([], [], [])" by (simp add: Inv_def)
  next
    fix ft s t
    assume ft: "ft \<in> set (getFeatures layer)" and I: "Inv s" and st: "?body ft s = Inr t"
    obtain ix xs ys where s: "s = (ix, xs, ys)" by (cases s)
    from st s obtain rb where rb: "rectBounds (geom ft) = Inr rb"
      and t: "t = (insertFeature ix ft, xs @ [bxMin rb, bxMax rb], ys @ [byMin rb, byMax rb])"
      by (auto simp: Let_def ebind_eq_Inr)
    from rectBounds_boundingBox [OF rb] obtain bb where
      bb: "boundingBox (geom ft) = Some bb" "bxMin bb \<le> bxMin rb" "bxMin rb \<le> bxMax bb"
        "byMin bb \<le> byMin rb" "byMin rb \<le> byMax bb" by blast
    have ins: "insertFeature ix ft = ix @ [(fid ft, bb)]"
      by (simp add: insertFeature_def bb(1))
    have new: "fid ft \<in> fid ` set (getFeatures layer)" using ft by simp
    show "Inv t"
      unfolding Inv_def t ins
      using I [unfolded Inv_def s] new bb(2-)
      by (auto simp: Ball_def)
  qed
  then have I: "\<forall>(i, bb)\<in>set idx. i \<in> fid ` set (getFeatures layer) \<and>
        (\<exists>px\<in>set x. bxMin bb \<le> px \<and> px \<le> bxMax bb) \<and>
        (\<exists>py\<in>set y. byMin bb \<le> py \<and> py \<le> byMax bb)"
    and ne: "x \<noteq> [] \<longrightarrow> idx \<noteq> []"
    by (simp_all add: Inv_def)
  note X0 = pymin_Inr [OF m(1)] and Y0 = pymin_Inr [OF m(2)]
    and X1 = pymax_Inr [OF m(3)] and Y1 = pymax_Inr [OF m(4)]
  from X0 have "x \<noteq> []" by auto
  with ne have idx: "idx \<noteq> []" by simp
  have ord: "x0 \<le> x1" "y0 \<le> y1" using X0 X1 Y0 Y1 by auto
  have meet: "i \<in> fid ` set (getFeatures layer) \<and> rect_intersects bb bnds"
    if "(i, bb) \<in> set idx" for i bb
  proof -
    from I that obtain px py where
      p: "i \<in> fid ` set (getFeatures layer)" "px \<in> set x" "bxMin bb \<le> px" "px \<le> bxMax bb"
        "py \<in> set y" "byMin bb \<le> py" "py \<le> byMax bb" by blast
    from p(2,5) X0 X1 Y0 Y1 have "x0 \<le> px" "px \<le> x1" "y0 \<le> py" "py \<le> y1" by auto
    with p show ?thesis by (auto simp: rect_intersects_def b bounds_defs)
  qed
  from ord idx meet show ?thesis by (auto simp: b bounds_defs)
qed

lemma boundsAndIndexDict_lookup:
  assumes "efold (\<lambda>v boundsIndexDict.
              ebind (boundsAndIndex eng layer field v)
                (\<lambda>entry. Inr (AList.update v entry boundsIndexDict))) vs d0 = Inr d"
  shows "(\<forall>v\<in>set vs. \<exists>entry. boundsAndIndex eng layer field v = Inr entry \<and> map_of d v = Some entry) \<and>
         (\<forall>v. v \<notin> set vs \<longrightarrow> map_of d v = map_of d0 v)"
  using assms
proof (induction vs arbitrary: d0)
  case Nil
  then show ?case by simp
next
  case (Cons a as)
  from Cons.prems obtain entry where a: "boundsAndIndex eng layer field a = Inr entry"
    and rest: "efold (\<lambda>v boundsIndexDict.
              ebind (boundsAndIndex eng layer field v)
                (\<lambda>entry. Inr (AList.update v entry boundsIndexDict))) as (AList.update a entry d0) = Inr d"
    by (auto simp: ebind_eq_Inr split: sum.splits)
  note IH = Cons.IH [OF rest]
  have ha: "map_of d a = Some entry"
  proof (cases "a \<in> set as")
    case True
    with IH a show ?thesis by auto
  next
    case False
    with IH have "map_of d a = map_of (AList.update a entry d0) a" by blast
    then show ?thesis by (simp add: update_conv)
  qed
  have other: "map_of d w = map_of d0 w" if "w \<notin> set (a # as)" for w
  proof -
    from that IH have "map_of d w = map_of (AList.update a entry d0) w" by auto
    with that show ?thesis by (simp add: update_conv)
  qed
  have "\<exists>entry. boundsAndIndex eng layer field w = Inr entry \<and> map_of d w = Some entry"
    if "w \<in> set (a # as)" for w
  proof (cases "w = a")
    case True
    with ha a show ?thesis by blast
  next
    case False
    with that IH show ?thesis by simp
  qed
  with other show ?case by blast
qed

lemma processParameters_loop:
  assumes "efold (\<lambda>feature (fieldValues, allFeatures).
                     ebind (getattr feature fieldName) (\<lambda>a.
                     ebind (str_attr a) (\<lambda>s.
                       Inr (set_add fieldValues s, AList.update (fid feature) feature allFeatures))))
              fs (vals, af) = Inr (vals', af')"
    and "distinct vals"
  shows "distinct vals' \<and> fid ` set fs \<subseteq> fst ` set af' \<and> fst ` set af \<subseteq> fst ` set af' \<and>
         snd ` set af' \<subseteq> snd ` set af \<union> set fs"
  using assms
proof (induction fs arbitrary: vals af)
  case Nil
  then show ?case by auto
next
  case (Cons f fs)
  from Cons.prems(1) obtain s where
    rest: "efold (\<lambda>feature (fieldValues, allFeatures).
                     ebind (getattr feature fieldName) (\<lambda>a.
                     ebind (str_attr a) (\<lambda>s.
                       Inr (set_add fieldValues s, AList.update (fid feature) feature allFeatures))))
              fs (set_add vals s, AList.update (fid f) f af) = Inr (vals', af')"
    by (auto simp: ebind_eq_Inr split: sum.splits)
  have d: "distinct (set_add vals s)" using Cons.prems(2) by (simp add: set_add_def)
  note IH = Cons.IH [OF rest d]
  have k: "fst ` set (AList.update (fid f) f af) = {fid f} \<union> fst ` set af"
    by (rule dom_update)
  have v: "snd ` set (AList.update (fid f) f af) \<subseteq> snd ` set af \<union> {f}"
    by (induction af) auto
  from IH have 1: "distinct vals'" "fid ` set fs \<subseteq> fst ` set af'"
    "fst ` set (AList.update (fid f) f af) \<subseteq> fst ` set af'"
    "snd ` set af' \<subseteq> snd ` set (AList.update (fid f) f af) \<union> set fs" by simp_all
  from 1(2,3) k have 2: "fid ` set (f # fs) \<subseteq> fst ` set af'" "fst ` set af \<subseteq> fst ` set af'"
    by auto
  from 1(4) v have 3: "snd ` set af' \<subseteq> snd ` set af \<union> set (f # fs)" by auto
  from 1(1) 2 3 show ?case by simp
qed

lemma graphDictionary_keys:
  "fst ` set (fold (\<lambda>v g. AList.update v \<lparr>edges = [], attributes = None\<rparr> g) vs g0) =
     fst ` set g0 \<union> set vs"
  by (induction vs arbitrary: g0) (auto simp: dom_update)

lemma processParameters_Inr:
  assumes "processParameters layer field = Inr (allFeatures, fieldValues, graphDict, layerFields)"
  shows "distinct fieldValues \<and> fst ` set graphDict = set fieldValues \<and>
         fid ` set (getFeatures layer) \<subseteq> fst ` set allFeatures \<and>
         snd ` set allFeatures \<subseteq> set (getFeatures layer)"
proof -
  from assms have
    loop: "efold (\<lambda>feature (fieldValues, allFeatures).
                     ebind (getattr feature field) (\<lambda>a.
                     ebind (str_attr a) (\<lambda>s.
                       Inr (set_add fieldValues s, AList.update (fid feature) feature allFeatures))))
              (getFeatures layer) ([], []) = Inr (fieldValues, allFeatures)"
    and g: "graphDict = fold (\<lambda>v g. AList.update v \<lparr>edges = [], attributes = None\<rparr> g) fieldValues []"
    by (auto simp: processParameters_def ebind_eq_Inr Let_def)
  from processParameters_loop [OF loop] graphDictionary_keys [of fieldValues "[]"] g
  show ?thesis by auto
qed

subsection \<open>Self-loops\<close>

text \<open>
  Claim C5: on the groups that \<open>boundsAndIndexDict\<close> builds for the values, features and
  graph of \<open>processParameters\<close>, and with an exact test under which every geometry of the
  layer intersects itself, \<open>findEdges\<close> returns, and the edge list of every value has the
  value itself as an entry: the group has a member, the member is a candidate on both
  sides of the pair of the value with itself, and it intersects itself. One member is
  enough.
\<close>

theorem findEdges_self_loop:
  assumes "processParameters layer field = Inr (allFeatures, fieldValues, graphDict, layerFields)"
    and "boundsAndIndexDict eng layer fieldValues field = Inr bdsIdxDict"
    and "\<forall>f\<in>set (getFeatures layer). gi (geom f) (geom f)"
    and "v \<in> set fieldValues"
  shows "\<exists>g'. findEdges gi fieldValues bdsIdxDict graphDict allFeatures = Inr g' \<and> hasEdge g' v v"
proof -
  from processParameters_Inr [OF assms(1)] have
    pp: "distinct fieldValues" "fst ` set graphDict = set fieldValues"
      "fid ` set (getFeatures layer) \<subseteq> fst ` set allFeatures"
      "snd ` set allFeatures \<subseteq> set (getFeatures layer)" by simp_all
  have entry: "\<exists>b idx. map_of bdsIdxDict w = Some (b, idx) \<and>
                 boundsAndIndex eng layer field w = Inr (b, idx)"
    if "w \<in> set fieldValues" for w
  proof -
    from boundsAndIndexDict_lookup [OF assms(2) [unfolded boundsAndIndexDict_def]] that
    obtain entry where "boundsAndIndex eng layer field w = Inr entry"
      "map_of bdsIdxDict w = Some entry" by blast
    then show ?thesis by (cases entry) blast
  qed
  have wf: "\<forall>w\<in>set fieldValues. \<exists>b idx. map_of bdsIdxDict w = Some (b, idx) \<and>
              fst ` set idx \<subseteq> fst ` set allFeatures"
  proof
    fix w assume "w \<in> set fieldValues"
    from entry [OF this] obtain b idx where e: "map_of bdsIdxDict w = Some (b, idx)"
      "boundsAndIndex eng layer field w = Inr (b, idx)" by blast
    from boundsAndIndex_Inr [OF e(2)] have "fst ` set idx \<subseteq> fid ` set (getFeatures layer)"
      by auto
    then have "fst ` set idx \<subseteq> fst ` set allFeatures" using pp(3) by (rule subset_trans)
    with e(1) show "\<exists>b idx. map_of bdsIdxDict w = Some (b, idx) \<and>
              fst ` set idx \<subseteq> fst ` set allFeatures" by blast
  qed
  from pp(2) have keys: "set fieldValues \<subseteq> fst ` set graphDict" by simp
  from findEdges_succeeds [OF wf keys pp(1)] obtain g' where
    g': "findEdges gi fieldValues bdsIdxDict graphDict allFeatures = Inr g'" by blast
  from entry [OF assms(4)] obtain bnds idx where e: "map_of bdsIdxDict v = Some (bnds, idx)"
    "boundsAndIndex eng layer field v = Inr (bnds, idx)" by blast
  from boundsAndIndex_Inr [OF e(2)] have
    ord: "bxMin bnds \<le> bxMax bnds" "byMin bnds \<le> byMax bnds" and ne: "idx \<noteq> []"
    and mem: "\<forall>(i, bb)\<in>set idx. i \<in> fid ` set (getFeatures layer) \<and> rect_intersects bb bnds"
    by simp_all
  have q: "QgsRectangle (bxMin bnds) (byMin bnds) (bxMax bnds) (byMax bnds) = bnds"
    using ord by (cases bnds) (auto simp: QgsRectangle_def bounds_defs)
  have sm: "smallRectangle bnds bnds = bnds"
    using q by (simp add: smallRectangle_def)
  have self: "rect_intersects bnds bnds"
    using ord by (simp add: rect_intersects_def)
  from ne have e0: "hd idx \<in> set idx" by (rule hd_in_set)
  obtain i bb where "hd idx = (i, bb)" by (cases "hd idx")
  with e0 have ibb: "(i, bb) \<in> set idx" by simp
  with mem have i: "i \<in> fid ` set (getFeatures layer)" "rect_intersects bb bnds" by auto
  from ibb i(2) have cand: "i \<in> set (index_intersects idx bnds)"
    by (force simp: index_intersects_def)
  from i(1) pp(3) map_of_key [of i allFeatures] obtain f' where
    f': "map_of allFeatures i = Some f'" by blast
  from map_of_SomeD [OF f'] have "f' \<in> snd ` set allFeatures" by force
  then have "f' \<in> set (getFeatures layer)" using pp(4) by (rule rev_subsetD)
  with assms(3) have "gi (geom f') (geom f')" by simp
  with f' have "hit gi allFeatures i i" by (simp add: hit_def)
  with cand have "list_ex (\<lambda>id1. list_ex (hit gi allFeatures id1) (index_intersects idx bnds))
                    (index_intersects idx bnds)"
    by (auto simp: list_ex_iff)
  with e(1) q sm self have "(v, v) \<in> pairEdges gi bdsIdxDict allFeatures v bnds idx v"
    by (simp add: pairEdges_def)
  with e(1) assms(4) have "(v, v) \<in> rowEdges gi fieldValues bdsIdxDict allFeatures v"
    by (auto simp: rowEdges_def)
  with assms(4) have "(v, v) \<in> (\<Union>v1\<in>set fieldValues. rowEdges gi fieldValues bdsIdxDict allFeatures v1)"
    by (rule UN_I)
  with findEdges_Inr [OF g'] have "(v, v) \<in> edgeSet g'" by simp
  then have "hasEdge g' v v" by (simp add: edgeSet_def)
  with g' show ?thesis by blast
qed

theorem findEdges_self_loop_witness:
  "processParameters xy_layer ''k'' =
     Inr (xy_features, [''x'', ''y''], xy_graph, [''k'']) \<and>
   boundsAndIndexDict key_engine xy_layer [''x'', ''y''] ''k'' =
     Inr xy_groups \<and>
   boxes_intersect (geom feature_x1) (geom feature_x1) \<and>
   boxes_intersect (geom feature_x2) (geom feature_x2) \<and>
   boxes_intersect (geom feature_y1) (geom feature_y1) \<and>
   (\<exists>g'. findEdges boxes_intersect [''x'', ''y'']
            xy_groups xy_graph xy_features = Inr g' \<and>
          hasEdge g' ''y'' ''y'')"
proof -
  have h1: "processParameters xy_layer ''k'' =
     Inr (xy_features, [''x'', ''y''], xy_graph, [''k''])" by code_simp
  have h2: "boundsAndIndexDict key_engine xy_layer [''x'', ''y''] ''k'' =
     Inr xy_groups" by code_simp
  have r: "boxes_intersect (geom feature_x1) (geom feature_x1) \<and>
   boxes_intersect (geom feature_x2) (geom feature_x2) \<and>
   boxes_intersect (geom feature_y1) (geom feature_y1)" by code_simp
  then have h3: "\<forall>f\<in>set (getFeatures xy_layer). boxes_intersect (geom f) (geom f)"
    by (simp add: xy_layer_def)
  have h4: "''y'' \<in> set [''x'', ''y'']" by simp
  from findEdges_self_loop [where gi = boxes_intersect, OF h1 h2 h3 h4] h1 h2 r show ?thesis by blast
qed

end
